theory Spec2Isabelle
  imports Main "HOL-Library.AList"
begin

section \<open>Python values and string primitives\<close>

text \<open>
  The program is \<^verbatim>\<open>git_log2csv.py\<close>, read as a Python 3 program: it calls
  \<^verbatim>\<open>subprocess.getoutput\<close> and \<^verbatim>\<open>pd.json_normalize\<close>, which Python 2 does not have.
  Strings are character lists; a character is read as a code point below 256. The exceptions the modelled code can raise are values of
  \<open>py_error\<close>; a computation that can raise returns \<open>py_error + 'a\<close> with \<open>Inl\<close> the
  exception.
\<close>

datatype py_error =
  IndexError | ValueError | KeyError string | TypeError | CalledProcessError

abbreviation tab :: char where
  "tab \<equiv> CHR 0x09"

abbreviation newline :: char where
  "newline \<equiv> CHR 0x0A"

text \<open>\<^verbatim>\<open>c.isdigit()\<close> for a one-character string: the decimal digits and, below 256, the
  superscript digits U+00B2, U+00B3 and U+00B9.\<close>

definition isdigit :: "char \<Rightarrow> bool" where
  "isdigit c =
     (let n = (of_char c :: nat)
      in (48 \<le> n \<and> n \<le> 57) \<or> n = 178 \<or> n = 179 \<or> n = 185)"

text \<open>The characters \<^verbatim>\<open>str.strip()\<close> removes: tab to carriage return, U+001C to space,
  U+0085 and U+00A0.\<close>

definition isspace :: "char \<Rightarrow> bool" where
  "isspace c =
     (let n = (of_char c :: nat)
      in (9 \<le> n \<and> n \<le> 13) \<or> (28 \<le> n \<and> n \<le> 32) \<or> n = 133 \<or> n = 160)"

text \<open>\<^verbatim>\<open>s.split(sep)\<close> with a one-character separator: never empty, one more field than
  there are separators.\<close>

fun str_split :: "string \<Rightarrow> char \<Rightarrow> string list" where
  "str_split [] sep = [[]]"
| "str_split (c # s) sep =
     (if c = sep then [] # str_split s sep
      else (case str_split s sep of
              [] \<Rightarrow> [[c]]
            | w # ws \<Rightarrow> (c # w) # ws))"

definition str_strip :: "string \<Rightarrow> string" where
  "str_strip s = rev (dropWhile isspace (rev (dropWhile isspace s)))"

text \<open>\<^verbatim>\<open>sep.join(parts)\<close>.\<close>

fun str_join :: "string \<Rightarrow> string list \<Rightarrow> string" where
  "str_join sep [] = []"
| "str_join sep [p] = p"
| "str_join sep (p # q # ps) = p @ sep @ str_join sep (q # ps)"

definition startswith :: "string \<Rightarrow> string \<Rightarrow> bool" where
  "startswith s p = (take (length p) s = p)"

text \<open>\<^verbatim>\<open>xs[i]\<close> for an index that is not negative.\<close>

definition getitem :: "'a list \<Rightarrow> nat \<Rightarrow> py_error + 'a" where
  "getitem xs i = (if i < length xs then Inr (xs ! i) else Inl IndexError)"

section \<open>Records of the log parser\<close>

text \<open>A numstat entry is the dictionary \<^verbatim>\<open>{'ins': .., 'del': .., 'path': ..}\<close>: its three
  keys are fixed, so it is a record.\<close>

record file_change =
  ins :: string
  del :: string
  path :: string

text \<open>The values a dictionary of the program holds, and a dictionary as the list of its
  items in insertion order. \<^verbatim>\<open>d[k] = v\<close> is \<open>AList.update k v d\<close>.\<close>

datatype pyval = Str string | Num int | Strs "string list" | Files "file_change list"

type_synonym dict = "(string \<times> pyval) list"

text \<open>The local variables \<^verbatim>\<open>git_log\<close> fills from the eight lines after a marker.\<close>

record header =
  sha :: string
  name :: string
  email :: string
  date :: string
  date_iso :: string
  parents :: "string list"
  tree :: string
  subject :: string

text \<open>How a run ends: it returns, it raises, or \<^verbatim>\<open>sys.exit\<close> ends it with a status.\<close>

datatype outcome = Returned | Raised py_error | Exited int

section \<open>The parser of \<^verbatim>\<open>git_log\<close>\<close>

definition START_OF_COMMIT :: string where
  "START_OF_COMMIT = ''@@@@@@@@@@''"

text \<open>Lines 152 to 159: eight reads at growing indexes, so one of them raises exactly
  when the last index is out of range.\<close>

definition read_header :: "string list \<Rightarrow> nat \<Rightarrow> py_error + header" where
  "read_header lines i =
     (if i + 7 < length lines then
        Inr \<lparr>sha = lines ! i,
             name = lines ! (i + 1),
             email = lines ! (i + 2),
             date = lines ! (i + 3),
             date_iso = lines ! (i + 4),
             parents = str_split (lines ! (i + 5)) CHR '' '',
             tree = lines ! (i + 6),
             subject = lines ! (i + 7)\<rparr>
      else Inl IndexError)"

text \<open>The test of the inner loop, lines 169 and 170, on a line that exists.\<close>

definition is_numstat :: "string \<Rightarrow> bool" where
  "is_numstat l = (l \<noteq> [] \<and> (isdigit (hd l) \<or> hd l = CHR ''-''))"

text \<open>Line 172: \<^verbatim>\<open>fields[0]\<close>, \<^verbatim>\<open>fields[1]\<close>, \<^verbatim>\<open>fields[2]\<close> of the line split on tabs;
  a line with fewer than three fields raises.\<close>

definition numstat_entry :: "string \<Rightarrow> py_error + file_change" where
  "numstat_entry l =
     (let fields = str_split l tab
      in if length fields < 3 then Inl IndexError
         else Inr \<lparr>ins = fields ! 0, del = fields ! 1, path = fields ! 2\<rparr>)"

text \<open>The inner loop, lines 169 to 173: the cursor and the file list it ends with.\<close>

function read_numstat ::
  "string list \<Rightarrow> nat \<Rightarrow> file_change list \<Rightarrow> py_error + (nat \<times> file_change list)" where
  "read_numstat lines i files =
     (if i < length lines \<and> is_numstat (lines ! i) then
        (case numstat_entry (lines ! i) of
           Inl e \<Rightarrow> Inl e
         | Inr f \<Rightarrow> read_numstat lines (i + 1) (files @ [f]))
      else Inr (i, files))"
  by pat_completeness auto
termination
  by (relation "measure (\<lambda>(lines, i, files). length lines - i)") auto

text \<open>Lines 162 to 173, from the cursor after the header.\<close>

definition read_files :: "string list \<Rightarrow> nat \<Rightarrow> py_error + (nat \<times> file_change list)" where
  "read_files lines i =
     (case getitem lines i of
        Inl e \<Rightarrow> Inl e
      | Inr l \<Rightarrow>
          if l \<noteq> START_OF_COMMIT then read_numstat lines (i + 1) []
          else Inr (i, []))"

text \<open>Lines 175 to 192: the dictionary appended for a commit. \<^verbatim>\<open>'h' in json_flags\<close> on a
  string is membership of the character.\<close>

definition wanted :: "string \<Rightarrow> char \<Rightarrow> bool" where
  "wanted json_flags c = (json_flags = [] \<or> c \<in> set json_flags)"

definition emit :: "string \<Rightarrow> header \<Rightarrow> file_change list \<Rightarrow> dict" where
  "emit json_flags h files =
     (let commit = [];
          commit = (if wanted json_flags CHR ''h''
                    then AList.update ''sha'' (Str (sha h)) commit else commit);
          commit = (if wanted json_flags CHR ''a''
                    then AList.update ''name'' (Str (name h)) commit else commit);
          commit = (if wanted json_flags CHR ''e''
                    then AList.update ''email'' (Str (email h)) commit else commit);
          commit = (if wanted json_flags CHR ''d''
                    then AList.update ''date_iso'' (Str (date_iso h))
                           (AList.update ''date'' (Str (date h)) commit)
                    else commit);
          commit = (if wanted json_flags CHR ''s''
                    then AList.update ''subject'' (Str (subject h)) commit else commit);
          commit = (if wanted json_flags CHR ''f''
                    then AList.update ''files'' (Files files) commit else commit);
          commit = (if wanted json_flags CHR ''p''
                    then AList.update ''parents'' (Strs (parents h)) commit else commit);
          commit = (if wanted json_flags CHR ''t''
                    then AList.update ''tree'' (Str (tree h)) commit else commit)
      in commit)"

declare read_numstat.simps [simp del]

lemma read_numstat_cursor:
  "read_numstat lines i files = Inr (j, files') \<Longrightarrow> i \<le> j"
proof (induction lines i files rule: read_numstat.induct)
  case (1 lines i files)
  show ?case
  proof (cases "i < length lines \<and> is_numstat (lines ! i)")
    case True
    with "1.prems" obtain f where f: "numstat_entry (lines ! i) = Inr f"
      and r: "read_numstat lines (i + 1) (files @ [f]) = Inr (j, files')"
      by (subst (asm) read_numstat.simps) (simp split: sum.splits)
    from "1.IH" [OF True f r] show ?thesis by simp
  next
    case False
    with "1.prems" show ?thesis
      by (subst (asm) read_numstat.simps) simp
  qed
qed

lemma read_files_cursor:
  assumes "read_files lines i = Inr (j, files)"
  shows "i \<le> j"
proof (cases "i < length lines \<and> lines ! i \<noteq> START_OF_COMMIT")
  case True
  with assms have "read_numstat lines (i + 1) [] = Inr (j, files)"
    by (simp add: read_files_def getitem_def)
  then show ?thesis
    using read_numstat_cursor [of lines "i + 1" "[]" j files] by simp
next
  case False
  with assms show ?thesis
    by (auto simp: read_files_def getitem_def split: if_splits)
qed

text \<open>The outer loop, lines 144 to 194: the list of commits when the loop ends, and how
  it ends. A raise leaves the commits appended so far.\<close>

function parse_commits ::
  "string \<Rightarrow> string list \<Rightarrow> nat \<Rightarrow> dict list \<Rightarrow> dict list \<times> outcome" where
  "parse_commits json_flags lines i commits =
     (if i < length lines then
        (if lines ! i = [] then (commits, Returned)
         else
           (case read_header lines (i + 1) of
              Inl e \<Rightarrow> (commits, Raised e)
            | Inr h \<Rightarrow>
                (case read_files lines (i + 9) of
                   Inl e \<Rightarrow> (commits, Raised e)
                 | Inr (j, files) \<Rightarrow>
                     parse_commits json_flags lines j (commits @ [emit json_flags h files]))))
      else (commits, Returned))"
  by pat_completeness auto
termination
proof (relation "measure (\<lambda>(json_flags, lines, i, commits). length lines - i)")
  show "wf (measure (\<lambda>(json_flags, lines, i, commits). length lines - i))"
    by simp
next
  fix json_flags :: string and lines :: "string list" and i :: nat
    and commits :: "dict list" and h x y j files
  assume "i < length lines" and "read_files lines (i + 9) = Inr x"
    and "(j, files) = x"
  then have "i + 9 \<le> j"
    using read_files_cursor [of lines "i + 9" j files] by simp
  with \<open>i < length lines\<close>
  show "((json_flags, lines, j, commits @ [emit json_flags h files]),
         (json_flags, lines, i, commits))
        \<in> measure (\<lambda>(json_flags, lines, i, commits). length lines - i)"
    by simp
qed

declare parse_commits.simps [simp del]

text \<open>Lines 141 to 194 on a captured text: split into lines, then the loop from the
  first line with no commit yet.\<close>

definition parse_output :: "string \<Rightarrow> string \<Rightarrow> dict list \<times> outcome" where
  "parse_output json_flags output = parse_commits json_flags (str_split output newline) 0 []"

section \<open>Argument helpers\<close>

text \<open>\<^verbatim>\<open>remove_elements\<close>: the second argument is one string or a list of strings. An
  element is kept when the inner loop ends without a \<^verbatim>\<open>break\<close>, that is when no removal
  is a prefix of it.\<close>

datatype removal = One string | Many "string list"

definition remove_elements :: "string list \<Rightarrow> removal \<Rightarrow> string list" where
  "remove_elements string_list strings_to_remove =
     (let removals = (case strings_to_remove of One r \<Rightarrow> [r] | Many rs \<Rightarrow> rs)
      in filter (\<lambda>el. \<not> list_ex (startswith el) removals) string_list)"

text \<open>\<^verbatim>\<open>has_flag\<close>: \<^verbatim>\<open>arg[0]\<close> raises on an empty argument, and \<^verbatim>\<open>arg[1]\<close>, read only
  after \<^verbatim>\<open>arg[0] == '-'\<close>, raises on the argument \<^verbatim>\<open>-\<close>.\<close>

fun has_flag :: "string list \<Rightarrow> char \<Rightarrow> py_error + bool" where
  "has_flag [] flag_to_check = Inr False"
| "has_flag (arg # all_args) flag_to_check =
     (case getitem arg 0 of
        Inl e \<Rightarrow> Inl e
      | Inr c0 \<Rightarrow>
          if c0 = CHR ''-'' then
            (case getitem arg 1 of
               Inl e \<Rightarrow> Inl e
             | Inr c1 \<Rightarrow>
                 if c1 \<noteq> CHR ''-'' \<and> flag_to_check \<in> set arg then Inr True
                 else has_flag all_args flag_to_check)
          else has_flag all_args flag_to_check)"

text \<open>What a run does to the outside, in order: a write to standard error, a
  \<^verbatim>\<open>print\<close>, a shell command given to \<^verbatim>\<open>subprocess.getoutput\<close>, an argument vector given
  to \<^verbatim>\<open>subprocess.check_output\<close>, and the frame \<^verbatim>\<open>to_csv\<close> writes to a file: a header
  line with the column names, then one line per row. The quoting of cells and the index
  column \<^verbatim>\<open>to_csv\<close> adds are not modelled.\<close>

record frame =
  columns :: "string list"
  rows :: "pyval list list"

datatype event =
    Stderr string
  | Stdout string
  | Shell string
  | Exec "string list"
  | WriteCsv string frame

text \<open>\<^verbatim>\<open>check_flags\<close>: one diagnostic per flag that is not allowed, then \<^verbatim>\<open>sys.exit(-2)\<close>
  if there was one. The state of the loop is the diagnostics written and \<^verbatim>\<open>has_error\<close>.\<close>

fun check_flags_loop ::
  "string \<Rightarrow> string \<Rightarrow> string \<Rightarrow> event list \<times> bool \<Rightarrow> event list \<times> bool" where
  "check_flags_loop [] allowed_flags error_message st = st"
| "check_flags_loop (incoming_flag # rest) allowed_flags error_message (written, has_error) =
     (if incoming_flag \<notin> set allowed_flags then
        check_flags_loop rest allowed_flags error_message
          (written @ [Stderr (error_message @ '': '' @ [CHR 0x22, incoming_flag, CHR 0x22, newline])],
           True)
      else check_flags_loop rest allowed_flags error_message (written, has_error))"

definition check_flags :: "string \<Rightarrow> string \<Rightarrow> string \<Rightarrow> event list \<times> outcome" where
  "check_flags incoming_flags allowed_flags error_message =
     (case check_flags_loop incoming_flags allowed_flags error_message ([], False) of
        (written, has_error) \<Rightarrow>
          (written, if has_error then Exited (- 2) else Returned))"

section \<open>Flattening with \<^verbatim>\<open>pandas.json_normalize\<close>\<close>

text \<open>
  The call is \<^verbatim>\<open>pd.json_normalize(commits, record_path=['files'], meta=[...])\<close>, with
  the library's default \<^verbatim>\<open>errors='raise'\<close>. For each dictionary in turn the library pulls
  the list under the record path, then each metadata key; a missing key raises
  \<^verbatim>\<open>KeyError\<close>. The frame has one row per pulled record, the metadata of its dictionary
  repeated on each; an empty input list gives the empty frame. The program stores only a
  list of numstat entries under \<^verbatim>\<open>'files'\<close>; any other value there is reported as
  \<^verbatim>\<open>TypeError\<close>, which the library raises for a value that is not a list. The metadata
  names of the call are distinct and differ from the record keys, so the library's
  check for conflicting names is left out.
\<close>

definition pull_field :: "dict \<Rightarrow> string \<Rightarrow> py_error + pyval" where
  "pull_field js spec =
     (case map_of js spec of
        None \<Rightarrow> Inl (KeyError spec)
      | Some v \<Rightarrow> Inr v)"

definition pull_records :: "dict \<Rightarrow> string \<Rightarrow> py_error + file_change list" where
  "pull_records js spec =
     (case pull_field js spec of
        Inl e \<Rightarrow> Inl e
      | Inr (Files fs) \<Rightarrow> Inr fs
      | Inr _ \<Rightarrow> Inl TypeError)"

fun pull_meta :: "dict \<Rightarrow> string list \<Rightarrow> py_error + pyval list" where
  "pull_meta obj [] = Inr []"
| "pull_meta obj (key # keys) =
     (case pull_field obj key of
        Inl e \<Rightarrow> Inl e
      | Inr v \<Rightarrow>
          (case pull_meta obj keys of
             Inl e \<Rightarrow> Inl e
           | Inr vs \<Rightarrow> Inr (v # vs)))"

fun recursive_extract ::
  "dict list \<Rightarrow> string \<Rightarrow> string list \<Rightarrow> py_error + (file_change list \<times> pyval list) list"
  where
  "recursive_extract [] record_path meta = Inr []"
| "recursive_extract (obj # data) record_path meta =
     (case pull_records obj record_path of
        Inl e \<Rightarrow> Inl e
      | Inr recs \<Rightarrow>
          (case pull_meta obj meta of
             Inl e \<Rightarrow> Inl e
           | Inr vals \<Rightarrow>
               (case recursive_extract data record_path meta of
                  Inl e \<Rightarrow> Inl e
                | Inr rest \<Rightarrow> Inr ((recs, vals) # rest))))"

definition record_cells :: "file_change \<Rightarrow> pyval list" where
  "record_cells f = [Str (ins f), Str (del f), Str (path f)]"

definition json_normalize :: "dict list \<Rightarrow> string \<Rightarrow> string list \<Rightarrow> py_error + frame" where
  "json_normalize data record_path meta =
     (if data = [] then Inr \<lparr>columns = [], rows = []\<rparr>
      else
        (case recursive_extract data record_path meta of
           Inl e \<Rightarrow> Inl e
         | Inr pulled \<Rightarrow>
             Inr \<lparr>columns =
                    (if concat (map fst pulled) = [] then [] else [''ins'', ''del'', ''path''])
                    @ meta,
                  rows =
                    concat (map (\<lambda>(recs, vals). map (\<lambda>f. record_cells f @ vals) recs)
                             pulled)\<rparr>))"

section \<open>\<^verbatim>\<open>git_log\<close>\<close>

text \<open>Lines 122 to 130: the argument list the function composes.\<close>

definition git_log_args :: "string list \<Rightarrow> string list" where
  "git_log_args args =
     remove_elements args
       (Many [''--oneline'', ''--pretty'', ''--parents'', ''--children'', ''--graph'',
              ''--notes'', ''--show_notes''])
     @ [''--pretty=tformat:'' @ START_OF_COMMIT @ ''%n%h%n%aN%n%aE%n%at%n%ai%n%p%n%t%n%s'',
        ''--date=local'',
        ''--numstat'']"

text \<open>Line 136: the command line given to the shell is this literal.\<close>

definition git_log_command :: string where
  "git_log_command =
     ''git log --pretty=tformat:@@@@@@@@@@%n%h%n%aN%n%aE%n%at%n%ai%n%p%n%t%n%s --date=local --numstat''"

text \<open>The output of a command read in text mode: a carriage return followed by a
  newline, and a carriage return alone, each become one newline.\<close>

abbreviation carriage_return :: char where
  "carriage_return \<equiv> CHR 0x0D"

fun universal_newlines :: "string \<Rightarrow> string" where
  "universal_newlines [] = []"
| "universal_newlines [c] = (if c = carriage_return then [newline] else [c])"
| "universal_newlines (c # d # s) =
     (if c = carriage_return then
        (if d = newline then newline # universal_newlines s
         else newline # universal_newlines (d # s))
      else c # universal_newlines (d # s))"

text \<open>\<^verbatim>\<open>subprocess.getoutput\<close>: the text the shell command prints, read in text mode, less
  one final newline (\<^verbatim>\<open>if data[-1:] == '\n': data = data[:-1]\<close>); the exit status of
  the command is ignored. The shell is the function \<open>shell\<close> from a command line to what
  it prints.\<close>

definition getoutput :: "(string \<Rightarrow> string) \<Rightarrow> string \<Rightarrow> string" where
  "getoutput shell cmd =
     (let data = universal_newlines (shell cmd)
      in if data \<noteq> [] \<and> last data = newline then butlast data else data)"

text \<open>
  \<^verbatim>\<open>git_log\<close>. The result is what the run did to the outside, in order, and how it
  ended. \<^verbatim>\<open>getoutput\<close> raises nothing here, so the handler of line 137 is not entered.
\<close>

definition git_log ::
  "(string \<Rightarrow> string) \<Rightarrow> string list \<Rightarrow> string \<Rightarrow> event list \<times> outcome" where
  "git_log shell args json_flags =
     (case check_flags json_flags ''aehdsfpt'' ''Unrecognized flag'' of
        (written, Exited n) \<Rightarrow> (written, Exited n)
      | (written, _) \<Rightarrow>
          (let args = git_log_args args;
               output = getoutput shell git_log_command;
               done = written @ [Shell git_log_command]
           in case parse_output json_flags output of
                (commits, Raised e) \<Rightarrow> (done, Raised e)
              | (commits, _) \<Rightarrow>
                  (case json_normalize commits ''files''
                          [''name'', ''date_iso'', ''subject'', ''sha''] of
                     Inl e \<Rightarrow> (done, Raised e)
                   | Inr df \<Rightarrow> (done @ [WriteCsv ''log.csv'' df], Returned))))"

section \<open>\<^verbatim>\<open>git_shortlog\<close>\<close>

text \<open>
  \<^verbatim>\<open>int(s)\<close> on a string: surrounding whitespace is skipped (tab to carriage return,
  space, U+0085, U+00A0), then an optional sign, then decimal digits, a single
  underscore allowed between two digits. Anything else raises \<^verbatim>\<open>ValueError\<close>.
\<close>

definition int_space :: "char \<Rightarrow> bool" where
  "int_space c =
     (let n = (of_char c :: nat)
      in (9 \<le> n \<and> n \<le> 13) \<or> n = 32 \<or> n = 133 \<or> n = 160)"

definition ascii_digit :: "char \<Rightarrow> bool" where
  "ascii_digit c = (let n = (of_char c :: nat) in 48 \<le> n \<and> n \<le> 57)"

fun int_digits :: "string \<Rightarrow> bool" where
  "int_digits [] = False"
| "int_digits [c] = ascii_digit c"
| "int_digits (c # d # r) =
     (ascii_digit c \<and> (if d = CHR ''_'' then int_digits r else int_digits (d # r)))"

definition digits_value :: "string \<Rightarrow> nat" where
  "digits_value d =
     foldl (\<lambda>a c. 10 * a + (of_char c - 48)) 0 (filter (\<lambda>c. c \<noteq> CHR ''_'') d)"

definition py_int :: "string \<Rightarrow> py_error + int" where
  "py_int s =
     (let t = rev (dropWhile int_space (rev (dropWhile int_space s)));
          negative = (t \<noteq> [] \<and> hd t = CHR ''-'');
          d = (if t \<noteq> [] \<and> (hd t = CHR ''-'' \<or> hd t = CHR ''+'') then tl t else t)
      in if int_digits d
         then Inr (if negative then - int (digits_value d) else int (digits_value d))
         else Inl ValueError)"

text \<open>Lines 92 to 105, the body of the loop over the lines: the entries after the line,
  or the exception \<^verbatim>\<open>int\<close> raises.\<close>

definition shortlog_line :: "bool \<Rightarrow> string \<Rightarrow> dict list \<Rightarrow> py_error + dict list" where
  "shortlog_line email_flag line author_entries =
     (let line = str_strip line;
          fields = str_split line tab
      in if length fields > 1 then
           (case py_int (fields ! 0) of
              Inl e \<Rightarrow> Inl e
            | Inr count \<Rightarrow>
                (let author = str_join '' '' (tl fields)
                 in if email_flag then
                      (let fields = str_split author CHR ''<''
                       in if length fields = 2 then
                            Inr (author_entries @
                                 [[(''name'', Str (str_strip (fields ! 0))),
                                   (''email'', Str (butlast (str_strip (fields ! 1)))),
                                   (''count'', Num count)]])
                          else Inr author_entries)
                    else Inr (author_entries @ [[(''name'', Str author), (''count'', Num count)]])))
         else Inr author_entries)"

fun author_loop :: "bool \<Rightarrow> string list \<Rightarrow> dict list \<Rightarrow> py_error + dict list" where
  "author_loop email_flag [] author_entries = Inr author_entries"
| "author_loop email_flag (line # lines) author_entries =
     (case shortlog_line email_flag line author_entries of
        Inl e \<Rightarrow> Inl e
      | Inr entries \<Rightarrow> author_loop email_flag lines entries)"

text \<open>\<^verbatim>\<open>json.dumps\<close> with its defaults, on the values the program builds: a string is
  quoted, with \<^verbatim>\<open>"\<close>, the backslash and every character outside space to \<^verbatim>\<open>~\<close>
  escaped; the separators are \<^verbatim>\<open>", "\<close> and \<^verbatim>\<open>": "\<close>.\<close>

definition hex_digit :: "nat \<Rightarrow> char" where
  "hex_digit n = (if n < 10 then char_of (48 + n) else char_of (87 + n))"

definition json_char :: "char \<Rightarrow> string" where
  "json_char c =
     (let n = (of_char c :: nat)
      in if c = CHR 0x22 then [CHR 0x5C, CHR 0x22]
         else if c = CHR 0x5C then [CHR 0x5C, CHR 0x5C]
         else if n = 8 then [CHR 0x5C, CHR ''b'']
         else if n = 9 then [CHR 0x5C, CHR ''t'']
         else if n = 10 then [CHR 0x5C, CHR ''n'']
         else if n = 12 then [CHR 0x5C, CHR ''f'']
         else if n = 13 then [CHR 0x5C, CHR ''r'']
         else if n < 32 \<or> 126 < n
           then [CHR 0x5C, CHR ''u'', CHR ''0'', CHR ''0'', hex_digit (n div 16), hex_digit (n mod 16)]
         else [c])"

definition json_str :: "string \<Rightarrow> string" where
  "json_str s = [CHR 0x22] @ concat (map json_char s) @ [CHR 0x22]"

fun str_nat :: "nat \<Rightarrow> string" where
  "str_nat n =
     (if n < 10 then [char_of (48 + n)]
      else str_nat (n div 10) @ [char_of (48 + n mod 10)])"

declare str_nat.simps [simp del]

definition str_int :: "int \<Rightarrow> string" where
  "str_int i = (if i < 0 then CHR ''-'' # str_nat (nat (- i)) else str_nat (nat i))"

definition json_file :: "file_change \<Rightarrow> string" where
  "json_file f =
     ''{'' @ json_str ''ins'' @ '': '' @ json_str (ins f) @ '', ''
     @ json_str ''del'' @ '': '' @ json_str (del f) @ '', ''
     @ json_str ''path'' @ '': '' @ json_str (path f) @ ''}''"

definition json_value :: "pyval \<Rightarrow> string" where
  "json_value v =
     (case v of
        Str s \<Rightarrow> json_str s
      | Num i \<Rightarrow> str_int i
      | Strs ss \<Rightarrow> ''['' @ str_join '', '' (map json_str ss) @ '']''
      | Files fs \<Rightarrow> ''['' @ str_join '', '' (map json_file fs) @ '']'')"

definition json_dict :: "dict \<Rightarrow> string" where
  "json_dict d =
     ''{'' @ str_join '', '' (map (\<lambda>(k, v). json_str k @ '': '' @ json_value v) d) @ ''}''"

definition json_dumps :: "dict list \<Rightarrow> string" where
  "json_dumps ds = ''['' @ str_join '', '' (map json_dict ds) @ '']''"

text \<open>
  \<^verbatim>\<open>subprocess.check_output\<close>, called with neither \<^verbatim>\<open>text\<close> nor an encoding: it raises
  \<^verbatim>\<open>CalledProcessError\<close> when the command ends with a status other than zero and
  returns what the command printed as a \<^verbatim>\<open>bytes\<close> object otherwise. The commands are
  the function \<open>run\<close> from an argument vector to the exit status and the output.
\<close>

datatype captured = Text string | Bytes string

definition check_output :: "(string list \<Rightarrow> int \<times> string) \<Rightarrow> string list \<Rightarrow> py_error + captured"
  where
  "check_output run argv =
     (case run argv of
        (status, data) \<Rightarrow> if status \<noteq> 0 then Inl CalledProcessError else Inr (Bytes data))"

text \<open>\<^verbatim>\<open>output.split('\n')\<close>, the separator being a string: a string is split, a
  \<^verbatim>\<open>bytes\<close> object raises \<^verbatim>\<open>TypeError\<close>.\<close>

definition split_newline :: "captured \<Rightarrow> py_error + string list" where
  "split_newline output =
     (case output of
        Text s \<Rightarrow> Inr (str_split s newline)
      | Bytes b \<Rightarrow> Inl TypeError)"

text \<open>
  \<^verbatim>\<open>git_shortlog\<close>. The three calls of \<^verbatim>\<open>has_flag\<close> come first and any of them can
  raise; then the command is run, line 85, and its output split, line 86.
\<close>

definition git_shortlog ::
  "(string list \<Rightarrow> int \<times> string) \<Rightarrow> string list \<Rightarrow> string \<Rightarrow> event list \<times> outcome" where
  "git_shortlog run args json_flags =
     (case has_flag args CHR ''s'' of
        Inl e \<Rightarrow> ([], Raised e)
      | Inr summary_flag \<Rightarrow>
     (case has_flag args CHR ''n'' of
        Inl e \<Rightarrow> ([], Raised e)
      | Inr numbered_flag \<Rightarrow>
     (case has_flag args CHR ''e'' of
        Inl e \<Rightarrow> ([], Raised e)
      | Inr email_flag \<Rightarrow>
          (let done = [Exec (''git'' # args)]
           in case check_output run (''git'' # args) of
                Inl e \<Rightarrow> (done, Raised e)
              | Inr output \<Rightarrow>
                  (case split_newline output of
                     Inl e \<Rightarrow> (done, Raised e)
                   | Inr lines \<Rightarrow>
                       (case (if summary_flag then author_loop email_flag lines []
                              else Inr []) of
                          Inl e \<Rightarrow> (done, Raised e)
                        | Inr author_entries \<Rightarrow>
                            (done @ [Stdout (json_dumps author_entries)], Returned)))))))"

section \<open>The text \<^verbatim>\<open>git log\<close> prints under the template\<close>

text \<open>
  Under \<^verbatim>\<open>--pretty=tformat:@@@@@@@@@@%n%h%n%aN%n%aE%n%at%n%ai%n%p%n%t%n%s --numstat\<close> a commit
  is printed as the marker line, eight lines for the placeholders and, when the commit
  changes files, an empty line and one line \<^verbatim>\<open>ins<TAB>del<TAB>path\<close> per file. Every
  line ends with a newline. A \<open>block\<close> holds the eight lines and the file changes of
  one commit.
\<close>

record block =
  sha_line :: string
  name_line :: string
  email_line :: string
  date_line :: string
  date_iso_line :: string
  parents_line :: string
  tree_line :: string
  subject_line :: string
  changes :: "file_change list"

definition numstat_line :: "file_change \<Rightarrow> string" where
  "numstat_line f = ins f @ [tab] @ del f @ [tab] @ path f"

definition header_lines :: "block \<Rightarrow> string list" where
  "header_lines b =
     [sha_line b, name_line b, email_line b, date_line b, date_iso_line b,
      parents_line b, tree_line b, subject_line b]"

definition render_block :: "block \<Rightarrow> string list" where
  "render_block b =
     START_OF_COMMIT # header_lines b
     @ (if changes b = [] then [] else [] # map numstat_line (changes b))"

definition lines_of :: "block list \<Rightarrow> string list" where
  "lines_of bs = concat (map render_block bs)"

text \<open>Lines joined as the command prints them, each ended by a newline.\<close>

definition unlines :: "string list \<Rightarrow> string" where
  "unlines ls = concat (map (\<lambda>l. l @ [newline]) ls)"

definition log_text :: "block list \<Rightarrow> string" where
  "log_text bs = unlines (lines_of bs)"

text \<open>The counts of a file change start with a digit or are \<^verbatim>\<open>-\<close>; no field holds a
  tab or a newline, and no header line holds a newline.\<close>

definition wf_change :: "file_change \<Rightarrow> bool" where
  "wf_change f =
     (ins f \<noteq> [] \<and> (isdigit (hd (ins f)) \<or> hd (ins f) = CHR ''-'')
      \<and> tab \<notin> set (ins f) \<and> tab \<notin> set (del f) \<and> tab \<notin> set (path f)
      \<and> newline \<notin> set (ins f) \<and> newline \<notin> set (del f) \<and> newline \<notin> set (path f))"

definition wf_block :: "block \<Rightarrow> bool" where
  "wf_block b =
     (list_all (\<lambda>l. newline \<notin> set l) (header_lines b) \<and> list_all wf_change (changes b))"

text \<open>No line of the block holds a carriage return, which text mode would turn into a
  line break.\<close>

definition no_carriage_return :: "block \<Rightarrow> bool" where
  "no_carriage_return b =
     (list_all (\<lambda>l. carriage_return \<notin> set l) (header_lines b)
      \<and> list_all (\<lambda>f. carriage_return \<notin> set (ins f) \<and> carriage_return \<notin> set (del f)
                      \<and> carriage_return \<notin> set (path f)) (changes b))"

text \<open>The header and the dictionary the parser is expected to build from a block.\<close>

definition block_header :: "block \<Rightarrow> header" where
  "block_header b =
     \<lparr>sha = sha_line b, name = name_line b, email = email_line b, date = date_line b,
      date_iso = date_iso_line b, parents = str_split (parents_line b) CHR '' '',
      tree = tree_line b, subject = subject_line b\<rparr>"

definition block_record :: "string \<Rightarrow> block \<Rightarrow> dict" where
  "block_record json_flags b = emit json_flags (block_header b) (changes b)"

text \<open>Three commits as the command prints them: one changing a text file and a binary
  file, a first commit changing no file, and a merge, for which no numstat is printed.\<close>

definition commit_a :: block where
  "commit_a =
     \<lparr>sha_line = ''a1b2c3d'', name_line = ''Alice'', email_line = ''a@example.com'',
      date_line = ''1700000000'', date_iso_line = ''2023-11-14 22:13:20 +0000'',
      parents_line = ''9f8e7d6'', tree_line = ''4b825dc'', subject_line = ''Add parser'',
      changes = [\<lparr>ins = ''3'', del = ''1'', path = ''foo.txt''\<rparr>,
                 \<lparr>ins = ''-'', del = ''-'', path = ''bin.dat''\<rparr>]\<rparr>"

definition commit_b :: block where
  "commit_b =
     \<lparr>sha_line = ''9f8e7d6'', name_line = ''Bob'', email_line = ''b@example.com'',
      date_line = ''1690000000'', date_iso_line = ''2023-07-22 04:26:40 +0000'',
      parents_line = '''', tree_line = ''4b825dc'', subject_line = ''Initial commit'',
      changes = []\<rparr>"

definition commit_c :: block where
  "commit_c =
     \<lparr>sha_line = ''c0ffee1'', name_line = ''Carol'', email_line = ''c@example.com'',
      date_line = ''1700100000'', date_iso_line = ''2023-11-16 02:00:00 +0000'',
      parents_line = ''a1b2c3d 5e6f7a8'', tree_line = ''7d1e2f3'',
      subject_line = ''Merge branch topic'',
      changes = []\<rparr>"

text \<open>A shell in which the command prints the given text.\<close>

definition prints :: "string \<Rightarrow> string \<Rightarrow> string" where
  "prints text cmd = text"

text \<open>The rows expected of a commit in the flattened frame: one per file change, the
  author name, ISO date, subject and hash of the commit on each.\<close>

definition block_rows :: "block \<Rightarrow> pyval list list" where
  "block_rows b =
     map (\<lambda>f. [Str (ins f), Str (del f), Str (path f),
               Str (name_line b), Str (date_iso_line b), Str (subject_line b),
               Str (sha_line b)])
       (changes b)"

text \<open>The first key the flattening looks up that a filter leaves out, in the order of
  the lookups: the record path, then the metadata names.\<close>

definition missing_key :: "string \<Rightarrow> string" where
  "missing_key json_flags =
     (if CHR ''f'' \<notin> set json_flags then ''files''
      else if CHR ''a'' \<notin> set json_flags then ''name''
      else if CHR ''d'' \<notin> set json_flags then ''date_iso''
      else if CHR ''s'' \<notin> set json_flags then ''subject''
      else ''sha'')"

text \<open>Commands that print the given text and end with status zero.\<close>

definition answers :: "string \<Rightarrow> string list \<Rightarrow> int \<times> string" where
  "answers text argv = (0, text)"

text \<open>The count field and the author label of a shortlog line, in terms of the trimmed
  line: the text before its first tab, and the text after it with every further tab
  turned into a space.\<close>

definition count_field :: "string \<Rightarrow> string" where
  "count_field line = takeWhile (\<lambda>c. c \<noteq> tab) (str_strip line)"

definition author_label :: "string \<Rightarrow> string" where
  "author_label line =
     map (\<lambda>c. if c = tab then CHR '' '' else c)
       (tl (dropWhile (\<lambda>c. c \<noteq> tab) (str_strip line)))"

section \<open>Facts about the string primitives\<close>

lemma str_split_free: "c \<notin> set s \<Longrightarrow> str_split s c = [s]"
  by (induction s) auto

lemma str_split_append: "c \<notin> set a \<Longrightarrow> str_split (a @ c # s) c = a # str_split s c"
  by (induction a) auto

lemma str_split_lines:
  "list_all (\<lambda>l. c \<notin> set l) ls
   \<Longrightarrow> str_split (concat (map (\<lambda>l. l @ [c]) ls) @ s) c = ls @ str_split s c"
  by (induction ls) (simp_all add: str_split_append)

section \<open>Facts about the parser on rendered blocks\<close>

lemma numstat_entry_line: "wf_change f \<Longrightarrow> numstat_entry (numstat_line f) = Inr f"
  by (simp add: numstat_entry_def numstat_line_def wf_change_def str_split_append
      str_split_free)

lemma is_numstat_line: "wf_change f \<Longrightarrow> is_numstat (numstat_line f)"
  by (cases "ins f") (auto simp: is_numstat_def numstat_line_def wf_change_def)

lemma not_numstat_marker: "\<not> is_numstat START_OF_COMMIT"
  by (simp add: is_numstat_def START_OF_COMMIT_def isdigit_def)

lemma not_numstat_empty: "\<not> is_numstat []"
  by (simp add: is_numstat_def)

lemma read_numstat_run:
  assumes "list_all wf_change fs"
    and "rest = [] \<or> \<not> is_numstat (hd rest)"
  shows "read_numstat (pre @ map numstat_line fs @ rest) (length pre) acc
         = Inr (length pre + length fs, acc @ fs)"
  using assms
proof (induction fs arbitrary: pre acc)
  case Nil
  then show ?case
    by (cases rest) (auto simp: read_numstat.simps [of _ "length pre"] nth_append)
next
  case (Cons f fs)
  have "read_numstat ((pre @ [numstat_line f]) @ map numstat_line fs @ rest)
          (length (pre @ [numstat_line f])) (acc @ [f])
        = Inr (length (pre @ [numstat_line f]) + length fs, (acc @ [f]) @ fs)"
    using Cons.prems by (intro Cons.IH) auto
  moreover have "wf_change f" using Cons.prems by simp
  ultimately show ?case
    by (subst read_numstat.simps)
       (simp add: nth_append is_numstat_line numstat_entry_line)
qed

lemma length_render_block:
  "length (render_block b) = 9 + (if changes b = [] then 0 else 1 + length (changes b))"
  by (simp add: render_block_def header_lines_def)

lemma read_header_block:
  "read_header (pre @ render_block b @ rest) (Suc (length pre)) = Inr (block_header b)"
  by (simp add: read_header_def render_block_def header_lines_def block_header_def nth_append)

lemma read_files_marker:
  "read_files (pre @ START_OF_COMMIT # rest) (length pre) = Inr (length pre, [])"
  by (simp add: read_files_def getitem_def nth_append)

lemma read_files_end: "read_files pre (length pre) = Inl IndexError"
  by (simp add: read_files_def getitem_def)

lemma read_files_run:
  assumes "list_all wf_change fs"
    and "rest = [] \<or> \<not> is_numstat (hd rest)"
    and "l \<noteq> START_OF_COMMIT"
  shows "read_files (pre @ l # map numstat_line fs @ rest) (length pre)
         = Inr (length pre + 1 + length fs, fs)"
proof -
  have "read_numstat ((pre @ [l]) @ map numstat_line fs @ rest) (length (pre @ [l])) []
        = Inr (length (pre @ [l]) + length fs, [] @ fs)"
    using assms(1,2) by (rule read_numstat_run)
  then show ?thesis
    using assms(3) by (simp add: read_files_def getitem_def nth_append)
qed

lemma read_files_block:
  assumes "wf_block b"
    and "rest \<noteq> []" and "\<not> is_numstat (hd rest)"
    and "changes b = [] \<longrightarrow> hd rest = START_OF_COMMIT"
  shows "read_files (pre @ render_block b @ rest) (length pre + 9)
         = Inr (length pre + length (render_block b), changes b)"
proof -
  define P where "P = pre @ START_OF_COMMIT # header_lines b"
  have lenP: "length P = length pre + 9"
    by (simp add: P_def header_lines_def)
  show ?thesis
  proof (cases "changes b = []")
    case True
    with assms obtain rest' where rest: "rest = START_OF_COMMIT # rest'"
      by (cases rest) auto
    have e: "pre @ render_block b @ rest = P @ START_OF_COMMIT # rest'"
      by (simp add: P_def render_block_def True rest)
    have lr: "length (render_block b) = 9"
      by (simp add: length_render_block True)
    show ?thesis
      unfolding e using read_files_marker [of P rest'] True by (simp add: lenP lr)
  next
    case False
    have e: "pre @ render_block b @ rest = P @ [] # map numstat_line (changes b) @ rest"
      by (simp add: P_def render_block_def False)
    have lr: "length (render_block b) = 9 + 1 + length (changes b)"
      by (simp add: length_render_block False)
    have "read_files (P @ [] # map numstat_line (changes b) @ rest) (length P)
          = Inr (length P + 1 + length (changes b), changes b)"
      using assms by (intro read_files_run) (auto simp: wf_block_def START_OF_COMMIT_def)
    then show ?thesis
      unfolding e by (simp add: lenP lr)
  qed
qed

lemma parse_commits_block:
  assumes "wf_block b"
    and "rest \<noteq> []" and "\<not> is_numstat (hd rest)"
    and "changes b = [] \<longrightarrow> hd rest = START_OF_COMMIT"
  shows "parse_commits fl (pre @ render_block b @ rest) (length pre) acc
         = parse_commits fl (pre @ render_block b @ rest)
             (length pre + length (render_block b)) (acc @ [block_record fl b])"
proof -
  have m: "(pre @ render_block b @ rest) ! length pre \<noteq> []"
    by (simp add: render_block_def nth_append START_OF_COMMIT_def)
  have l: "length pre < length (pre @ render_block b @ rest)"
    by (simp add: render_block_def)
  show ?thesis
    by (subst parse_commits.simps)
       (use m l in \<open>simp add: read_header_block read_files_block [OF assms] block_record_def
          del: length_append\<close>)
qed

lemma hd_lines_of: "bs \<noteq> [] \<Longrightarrow> hd (lines_of bs @ rest) = START_OF_COMMIT"
  by (cases bs) (simp_all add: lines_of_def render_block_def)

lemma parse_commits_blocks:
  assumes "list_all wf_block bs"
    and "rest \<noteq> []" and "hd rest = START_OF_COMMIT"
  shows "parse_commits fl (pre @ lines_of bs @ rest) (length pre) acc
         = parse_commits fl (pre @ lines_of bs @ rest)
             (length pre + length (lines_of bs)) (acc @ map (block_record fl) bs)"
  using assms(1)
proof (induction bs arbitrary: pre acc)
  case Nil
  then show ?case by (simp add: lines_of_def)
next
  case (Cons b bs)
  define R where "R = lines_of bs @ rest"
  have R: "R \<noteq> []" "hd R = START_OF_COMMIT"
    using assms(2,3) hd_lines_of [of bs rest] by (cases bs; simp add: R_def lines_of_def)+
  have e: "pre @ lines_of (b # bs) @ rest = pre @ render_block b @ R"
    by (simp add: R_def lines_of_def)
  have step: "parse_commits fl (pre @ render_block b @ R) (length pre) acc
        = parse_commits fl (pre @ render_block b @ R)
            (length pre + length (render_block b)) (acc @ [block_record fl b])"
    using Cons.prems R by (intro parse_commits_block) (auto simp: not_numstat_marker)
  have ih: "parse_commits fl ((pre @ render_block b) @ lines_of bs @ rest)
              (length (pre @ render_block b)) (acc @ [block_record fl b])
        = parse_commits fl ((pre @ render_block b) @ lines_of bs @ rest)
            (length (pre @ render_block b) + length (lines_of bs))
            ((acc @ [block_record fl b]) @ map (block_record fl) bs)"
    using Cons.prems by (intro Cons.IH) simp
  show ?case
    unfolding e using step ih by (simp add: R_def lines_of_def add.assoc)
qed

lemma parse_commits_stop:
  "rest = [] \<or> hd rest = []
   \<Longrightarrow> parse_commits fl (pre @ rest) (length pre) acc = (acc, Returned)"
  by (subst parse_commits.simps) (cases rest; auto simp: nth_append)

lemma parse_commits_last_files:
  assumes "wf_block b" and "changes b \<noteq> []" and "rest = [] \<or> hd rest = []"
  shows "parse_commits fl (pre @ render_block b @ rest) (length pre) acc
         = (acc @ [block_record fl b], Returned)"
proof -
  define P where "P = pre @ START_OF_COMMIT # header_lines b"
  have lenP: "length P = length pre + 9"
    by (simp add: P_def header_lines_def)
  have e: "pre @ render_block b @ rest = P @ [] # map numstat_line (changes b) @ rest"
    by (simp add: P_def render_block_def assms(2))
  have nn: "rest = [] \<or> \<not> is_numstat (hd rest)"
    using assms(3) by (auto simp: not_numstat_empty)
  have wf: "list_all wf_change (changes b)"
    using assms(1) by (simp add: wf_block_def)
  have ne: "[] \<noteq> START_OF_COMMIT"
    by (simp add: START_OF_COMMIT_def)
  have lr: "length (pre @ render_block b) = length pre + 9 + 1 + length (changes b)"
    by (simp add: length_render_block assms(2))
  have rf: "read_files (pre @ render_block b @ rest) (length pre + 9)
          = Inr (length (pre @ render_block b), changes b)"
    unfolding e lr using read_files_run [OF wf nn ne, of P] by (simp add: lenP)
  have m: "(pre @ render_block b @ rest) ! length pre \<noteq> []"
    by (simp add: render_block_def nth_append START_OF_COMMIT_def)
  have l: "length pre < length (pre @ render_block b @ rest)"
    by (simp add: render_block_def)
  have stop: "parse_commits fl ((pre @ render_block b) @ rest) (length (pre @ render_block b))
          (acc @ [block_record fl b]) = (acc @ [block_record fl b], Returned)"
    using assms(3) by (rule parse_commits_stop)
  show ?thesis
    by (subst parse_commits.simps)
       (use m l stop in \<open>simp add: read_header_block rf block_record_def del: length_append\<close>)
qed

lemma parse_commits_last_blank:
  assumes "changes b = []" and "x \<noteq> START_OF_COMMIT"
  shows "parse_commits fl (pre @ render_block b @ [x]) (length pre) acc
         = (acc @ [block_record fl b], Returned)"
proof -
  define P where "P = pre @ START_OF_COMMIT # header_lines b"
  have lenP: "length P = length pre + 9"
    by (simp add: P_def header_lines_def)
  have e: "pre @ render_block b @ [x] = P @ [x]"
    by (simp add: P_def render_block_def assms(1))
  have rf: "read_files (P @ [x]) (length pre + 9) = Inr (length (P @ [x]), [])"
    using assms(2)
    by (simp add: read_files_def getitem_def lenP [symmetric] read_numstat.simps)
  have m: "(P @ [x]) ! length pre \<noteq> []"
    by (simp add: P_def nth_append START_OF_COMMIT_def)
  have l: "length pre < length (P @ [x])"
    by (simp add: P_def)
  have rh: "read_header (P @ [x]) (Suc (length pre)) = Inr (block_header b)"
    using read_header_block [of pre b "[x]"] by (simp add: e)
  have stop: "parse_commits fl (P @ [x]) (length (P @ [x])) (acc @ [block_record fl b])
        = (acc @ [block_record fl b], Returned)"
    by (subst parse_commits.simps) simp
  show ?thesis
    unfolding e
    by (subst parse_commits.simps)
       (use m l stop assms(1) in \<open>simp add: rh rf block_record_def del: length_append\<close>)
qed

lemma parse_commits_last_cut:
  assumes "changes b = []"
  shows "parse_commits fl (pre @ render_block b) (length pre) acc = (acc, Raised IndexError)"
proof -
  define P where "P = pre @ START_OF_COMMIT # header_lines b"
  have lenP: "length P = length pre + 9"
    by (simp add: P_def header_lines_def)
  have e: "pre @ render_block b = P"
    by (simp add: P_def render_block_def assms(1))
  have rf: "read_files P (length pre + 9) = Inl IndexError"
    using read_files_end [of P] by (simp add: lenP)
  have m: "P ! length pre \<noteq> []"
    by (simp add: P_def nth_append START_OF_COMMIT_def)
  have l: "length pre < length P"
    by (simp add: P_def)
  have rh: "read_header P (Suc (length pre)) = Inr (block_header b)"
    using read_header_block [of pre b "[]"] by (simp add: e)
  show ?thesis
    unfolding e
    by (subst parse_commits.simps) (use m l in \<open>simp add: rh rf\<close>)
qed

lemma parse_commits_truncated:
  assumes "length hs \<le> 8" and "m \<noteq> []"
  shows "parse_commits fl (pre @ m # hs) (length pre) acc = (acc, Raised IndexError)"
proof (cases "length hs = 8")
  case True
  have rh: "\<exists>h. read_header (pre @ m # hs) (Suc (length pre)) = Inr h"
    using True by (simp add: read_header_def)
  have rf: "read_files (pre @ m # hs) (length pre + 9) = Inl IndexError"
    using True by (simp add: read_files_def getitem_def)
  from rh obtain h where "read_header (pre @ m # hs) (Suc (length pre)) = Inr h" ..
  then show ?thesis
    using assms(2) rf by (subst parse_commits.simps) (simp add: nth_append)
next
  case False
  with assms have "read_header (pre @ m # hs) (Suc (length pre)) = Inl IndexError"
    by (simp add: read_header_def)
  then show ?thesis
    using assms(2) by (subst parse_commits.simps) (simp add: nth_append)
qed

lemma str_split_unlines:
  "list_all (\<lambda>l. newline \<notin> set l) ls \<Longrightarrow> str_split (unlines ls) newline = ls @ [[]]"
  using str_split_lines [of newline ls "[]"] by (simp add: unlines_def)

lemma str_split_unlines_cut:
  assumes "list_all (\<lambda>l. newline \<notin> set l) ls" and "ls \<noteq> []"
  shows "str_split (butlast (unlines ls)) newline = ls"
proof -
  from assms(2) obtain ks l where ls: "ls = ks @ [l]"
    by (cases ls rule: rev_cases) auto
  have "butlast (unlines ls) = concat (map (\<lambda>l. l @ [newline]) ks) @ l"
    by (simp add: ls unlines_def butlast_append)
  moreover have "list_all (\<lambda>l. newline \<notin> set l) ks" and "newline \<notin> set l"
    using assms(1) by (simp_all add: ls)
  ultimately show ?thesis
    by (simp add: str_split_lines str_split_free ls)
qed

lemma render_block_newline_free:
  "wf_block b \<Longrightarrow> list_all (\<lambda>l. newline \<notin> set l) (render_block b)"
  by (auto simp: wf_block_def render_block_def START_OF_COMMIT_def list_all_iff
      numstat_line_def wf_change_def)

lemma lines_of_newline_free:
  "list_all wf_block bs \<Longrightarrow> list_all (\<lambda>l. newline \<notin> set l) (lines_of bs)"
  by (induction bs) (simp_all add: lines_of_def render_block_newline_free)

lemma parse_commits_then_truncated:
  assumes "list_all wf_block bs" and "length hs \<le> 8"
  shows "parse_commits fl (lines_of bs @ START_OF_COMMIT # hs) 0 []
         = (map (block_record fl) bs, Raised IndexError)"
proof -
  have "parse_commits fl ([] @ lines_of bs @ START_OF_COMMIT # hs) (length ([] :: string list)) []
        = parse_commits fl ([] @ lines_of bs @ START_OF_COMMIT # hs)
            (length ([] :: string list) + length (lines_of bs)) ([] @ map (block_record fl) bs)"
    using assms(1) by (intro parse_commits_blocks) simp_all
  moreover have "parse_commits fl (lines_of bs @ START_OF_COMMIT # hs) (length (lines_of bs))
          (map (block_record fl) bs) = (map (block_record fl) bs, Raised IndexError)"
    using assms(2) by (intro parse_commits_truncated) (simp_all add: START_OF_COMMIT_def)
  ultimately show ?thesis by simp
qed

text \<open>
  Claim C8. A stream that ends, after any number of complete blocks, with a marker and
  fewer than eight header lines makes the parser raise \<^verbatim>\<open>IndexError\<close>; the commits
  appended when it raises are those of the complete blocks, with no record for the
  truncated one. This holds for the text as printed, every line ended by a newline, and
  for the same text less its final newline.
\<close>

theorem truncated_block_raises:
  assumes "list_all wf_block bs"
    and "length hs < 8"
    and "list_all (\<lambda>l. newline \<notin> set l) hs"
  shows "parse_output fl (unlines (lines_of bs @ START_OF_COMMIT # hs))
           = (map (block_record fl) bs, Raised IndexError)
       \<and> parse_output fl (butlast (unlines (lines_of bs @ START_OF_COMMIT # hs)))
           = (map (block_record fl) bs, Raised IndexError)"
proof -
  let ?ls = "lines_of bs @ START_OF_COMMIT # hs"
  have free: "list_all (\<lambda>l. newline \<notin> set l) ?ls"
    using assms(1,3) by (simp add: lines_of_newline_free START_OF_COMMIT_def)
  have full: "str_split (unlines ?ls) newline = lines_of bs @ START_OF_COMMIT # (hs @ [[]])"
    using str_split_unlines [OF free] by simp
  have cut: "str_split (butlast (unlines ?ls)) newline = ?ls"
    using free by (intro str_split_unlines_cut) simp_all
  have "parse_commits fl (lines_of bs @ START_OF_COMMIT # (hs @ [[]])) 0 []
        = (map (block_record fl) bs, Raised IndexError)"
    using assms(1,2) by (intro parse_commits_then_truncated) simp_all
  moreover have "parse_commits fl ?ls 0 [] = (map (block_record fl) bs, Raised IndexError)"
    using assms(1,2) by (intro parse_commits_then_truncated) simp_all
  ultimately show ?thesis
    by (simp add: parse_output_def full cut)
qed

lemma wf_commit_a: "wf_block commit_a"
  by (simp add: wf_block_def commit_a_def header_lines_def wf_change_def isdigit_def)

lemma wf_commit_b: "wf_block commit_b"
  by (simp add: wf_block_def commit_b_def header_lines_def)

lemma wf_commit_c: "wf_block commit_c"
  by (simp add: wf_block_def commit_c_def header_lines_def)

theorem truncated_block_raises_witness:
  "parse_output [] (unlines (lines_of [commit_a] @ START_OF_COMMIT # [''9f8e7d6'', ''Bob'']))
     = (map (block_record []) [commit_a], Raised IndexError)
   \<and> parse_output []
       (butlast (unlines (lines_of [commit_a] @ START_OF_COMMIT # [''9f8e7d6'', ''Bob''])))
     = (map (block_record []) [commit_a], Raised IndexError)"
  using truncated_block_raises [of "[commit_a]" "[''9f8e7d6'', ''Bob'']" "[]"]
  by (simp add: wf_commit_a)

lemma read_numstat_takeWhile:
  assumes "list_all (\<lambda>l. 3 \<le> length (str_split l tab)) (takeWhile is_numstat (drop i lines))"
  shows "read_numstat lines i acc
         = Inr (i + length (takeWhile is_numstat (drop i lines)),
                acc @ map (\<lambda>l. \<lparr>ins = str_split l tab ! 0, del = str_split l tab ! 1,
                                  path = str_split l tab ! 2\<rparr>)
                        (takeWhile is_numstat (drop i lines)))"
  using assms
proof (induction lines i acc rule: read_numstat.induct)
  case (1 lines i files)
  show ?case
  proof (cases "i < length lines \<and> is_numstat (lines ! i)")
    case True
    then have d: "drop i lines = lines ! i # drop (i + 1) lines"
      by (simp add: Cons_nth_drop_Suc)
    have ok: "3 \<le> length (str_split (lines ! i) tab)"
      and rest: "list_all (\<lambda>l. 3 \<le> length (str_split l tab))
                   (takeWhile is_numstat (drop (i + 1) lines))"
      using "1.prems" True by (simp_all add: d)
    define f where "f = \<lparr>ins = str_split (lines ! i) tab ! 0,
      del = str_split (lines ! i) tab ! 1, path = str_split (lines ! i) tab ! 2\<rparr>"
    have e: "numstat_entry (lines ! i) = Inr f"
      using ok by (simp add: numstat_entry_def f_def Let_def)
    from "1.IH" [OF True e rest]
    show ?thesis
      using True by (subst read_numstat.simps) (simp add: e d f_def)
  next
    case False
    then have "takeWhile is_numstat (drop i lines) = []"
      by (cases "i < length lines") (simp_all add: Cons_nth_drop_Suc [symmetric])
    then show ?thesis
      using False by (subst read_numstat.simps) auto
  qed
qed

text \<open>
  Lines 162 to 173 when a line follows the eight header lines, the cursor \<open>i\<close> being on
  it: if that line is the marker, the file list is empty and the cursor does not move.
  Otherwise that one line is skipped and the lines consumed are the longest run of
  lines that are not empty and start with a digit or \<^verbatim>\<open>-\<close>; each line of the run, having
  its three tab-separated fields, gives the entry of its first three fields. When no
  line follows the header, the read of line 165 raises (lemma \<open>read_files_end\<close>).
\<close>

lemma numstat_block_consumed:
  assumes "i < length lines"
  shows "(lines ! i = START_OF_COMMIT \<longrightarrow> read_files lines i = Inr (i, []))
       \<and> (lines ! i \<noteq> START_OF_COMMIT
          \<and> list_all (\<lambda>l. 3 \<le> length (str_split l tab))
               (takeWhile (\<lambda>l. l \<noteq> [] \<and> (isdigit (hd l) \<or> hd l = CHR ''-''))
                  (drop (i + 1) lines))
          \<longrightarrow> read_files lines i
              = Inr (i + 1
                      + length (takeWhile (\<lambda>l. l \<noteq> [] \<and> (isdigit (hd l) \<or> hd l = CHR ''-''))
                                  (drop (i + 1) lines)),
                     map (\<lambda>l. \<lparr>ins = str_split l tab ! 0, del = str_split l tab ! 1,
                                path = str_split l tab ! 2\<rparr>)
                       (takeWhile (\<lambda>l. l \<noteq> [] \<and> (isdigit (hd l) \<or> hd l = CHR ''-''))
                          (drop (i + 1) lines))))"
proof -
  have t: "(\<lambda>l. l \<noteq> [] \<and> (isdigit (hd l) \<or> hd l = CHR ''-'')) = is_numstat"
    by (simp add: fun_eq_iff is_numstat_def)
  show ?thesis
    unfolding t
    using assms read_numstat_takeWhile [of "i + 1" lines "[]"]
    by (simp add: read_files_def getitem_def)
qed

lemma numstat_block_consumed_example:
  "read_files (lines_of [commit_c, commit_a]) 9 = Inr (9, [])
   \<and> read_files (lines_of [commit_a, commit_b]) 9
     = Inr (12, [\<lparr>ins = ''3'', del = ''1'', path = ''foo.txt''\<rparr>,
                 \<lparr>ins = ''-'', del = ''-'', path = ''bin.dat''\<rparr>])"
  using numstat_block_consumed [of 9 "lines_of [commit_c, commit_a]"]
    numstat_block_consumed [of 9 "lines_of [commit_a, commit_b]"]
  by (simp add: lines_of_def render_block_def header_lines_def commit_a_def commit_b_def
      commit_c_def
      numstat_line_def START_OF_COMMIT_def isdigit_def)

lemma emit_wanted_cong:
  "(\<And>c. wanted f1 c = wanted f2 c) \<Longrightarrow> emit f1 h fs = emit f2 h fs"
  by (simp add: emit_def)

lemma emit_items:
  "emit fl h fs =
     (if wanted fl CHR ''h'' then [(''sha'', Str (sha h))] else [])
     @ (if wanted fl CHR ''a'' then [(''name'', Str (name h))] else [])
     @ (if wanted fl CHR ''e'' then [(''email'', Str (email h))] else [])
     @ (if wanted fl CHR ''d''
        then [(''date'', Str (date h)), (''date_iso'', Str (date_iso h))] else [])
     @ (if wanted fl CHR ''s'' then [(''subject'', Str (subject h))] else [])
     @ (if wanted fl CHR ''f'' then [(''files'', Files fs)] else [])
     @ (if wanted fl CHR ''p'' then [(''parents'', Strs (parents h))] else [])
     @ (if wanted fl CHR ''t'' then [(''tree'', Str (tree h))] else [])"
  by (simp add: emit_def Let_def)

lemma map_of_optional:
  "map_of ((if c then xs else []) @ ys) k
   = (if c then (case map_of xs k of None \<Rightarrow> map_of ys k | Some v \<Rightarrow> Some v)
      else map_of ys k)"
  by (simp add: map_add_def split: option.splits)

lemma map_of_optional_last:
  "map_of (if c then xs else []) k = (if c then map_of xs k else None)"
  by simp

lemma emit_keys:
  "fst ` set (emit fl h fs)
   \<subseteq> {''sha'', ''name'', ''email'', ''date'', ''date_iso'', ''subject'', ''files'',
      ''parents'', ''tree''}"
  unfolding emit_items by (auto split: if_splits)

lemma emit_lookup:
  shows "map_of (emit fl h fs) ''sha''
       = (if fl = [] \<or> CHR ''h'' \<in> set fl then Some (Str (sha h)) else None)"
    and "map_of (emit fl h fs) ''name''
       = (if fl = [] \<or> CHR ''a'' \<in> set fl then Some (Str (name h)) else None)"
    and "map_of (emit fl h fs) ''email''
       = (if fl = [] \<or> CHR ''e'' \<in> set fl then Some (Str (email h)) else None)"
    and "map_of (emit fl h fs) ''date''
       = (if fl = [] \<or> CHR ''d'' \<in> set fl then Some (Str (date h)) else None)"
    and "map_of (emit fl h fs) ''date_iso''
       = (if fl = [] \<or> CHR ''d'' \<in> set fl then Some (Str (date_iso h)) else None)"
    and "map_of (emit fl h fs) ''subject''
       = (if fl = [] \<or> CHR ''s'' \<in> set fl then Some (Str (subject h)) else None)"
    and "map_of (emit fl h fs) ''files''
       = (if fl = [] \<or> CHR ''f'' \<in> set fl then Some (Files fs) else None)"
    and "map_of (emit fl h fs) ''parents''
       = (if fl = [] \<or> CHR ''p'' \<in> set fl then Some (Strs (parents h)) else None)"
    and "map_of (emit fl h fs) ''tree''
       = (if fl = [] \<or> CHR ''t'' \<in> set fl then Some (Str (tree h)) else None)"
  by (simp_all add: emit_items map_of_optional map_of_optional_last wanted_def
      split del: if_split del: map_of_append cong del: if_weak_cong)

text \<open>
  Claim C3. With the empty filter the dictionary built for a commit holds the nine keys,
  in the order of the assignments. With any filter, a key is present exactly when the
  filter is empty or holds the key's code, and it then has the parsed value; \<^verbatim>\<open>date\<close> and
  \<^verbatim>\<open>date_iso\<close> share the code \<^verbatim>\<open>d\<close>; no other key occurs. Two filters with the same
  characters, such as \<^verbatim>\<open>as\<close> and \<^verbatim>\<open>sa\<close>, give the same dictionary.
\<close>

theorem field_filter:
  "map fst (emit [] h fs)
     = [''sha'', ''name'', ''email'', ''date'', ''date_iso'', ''subject'', ''files'',
        ''parents'', ''tree'']
   \<and> map_of (emit fl h fs) ''sha''
       = (if fl = [] \<or> CHR ''h'' \<in> set fl then Some (Str (sha h)) else None)
   \<and> map_of (emit fl h fs) ''name''
       = (if fl = [] \<or> CHR ''a'' \<in> set fl then Some (Str (name h)) else None)
   \<and> map_of (emit fl h fs) ''email''
       = (if fl = [] \<or> CHR ''e'' \<in> set fl then Some (Str (email h)) else None)
   \<and> map_of (emit fl h fs) ''date''
       = (if fl = [] \<or> CHR ''d'' \<in> set fl then Some (Str (date h)) else None)
   \<and> map_of (emit fl h fs) ''date_iso''
       = (if fl = [] \<or> CHR ''d'' \<in> set fl then Some (Str (date_iso h)) else None)
   \<and> map_of (emit fl h fs) ''subject''
       = (if fl = [] \<or> CHR ''s'' \<in> set fl then Some (Str (subject h)) else None)
   \<and> map_of (emit fl h fs) ''files''
       = (if fl = [] \<or> CHR ''f'' \<in> set fl then Some (Files fs) else None)
   \<and> map_of (emit fl h fs) ''parents''
       = (if fl = [] \<or> CHR ''p'' \<in> set fl then Some (Strs (parents h)) else None)
   \<and> map_of (emit fl h fs) ''tree''
       = (if fl = [] \<or> CHR ''t'' \<in> set fl then Some (Str (tree h)) else None)
   \<and> fst ` set (emit fl h fs)
       \<subseteq> {''sha'', ''name'', ''email'', ''date'', ''date_iso'', ''subject'', ''files'',
          ''parents'', ''tree''}
   \<and> (set f1 = set f2 \<longrightarrow> emit f1 h fs = emit f2 h fs)
   \<and> emit ''as'' h fs = emit ''sa'' h fs"
proof -
  have order: "map fst (emit [] h fs)
     = [''sha'', ''name'', ''email'', ''date'', ''date_iso'', ''subject'', ''files'',
        ''parents'', ''tree'']"
    by (simp add: emit_items map_of_optional map_of_optional_last wanted_def
        split del: if_split del: map_of_append cong del: if_weak_cong)
  have k1: "map_of (emit fl h fs) ''sha''
       = (if fl = [] \<or> CHR ''h'' \<in> set fl then Some (Str (sha h)) else None)"
    by (rule emit_lookup(1))
  have k2: "map_of (emit fl h fs) ''name''
       = (if fl = [] \<or> CHR ''a'' \<in> set fl then Some (Str (name h)) else None)"
    by (rule emit_lookup(2))
  have k3: "map_of (emit fl h fs) ''email''
       = (if fl = [] \<or> CHR ''e'' \<in> set fl then Some (Str (email h)) else None)"
    by (rule emit_lookup(3))
  have k4: "map_of (emit fl h fs) ''date''
       = (if fl = [] \<or> CHR ''d'' \<in> set fl then Some (Str (date h)) else None)"
    by (rule emit_lookup(4))
  have k5: "map_of (emit fl h fs) ''date_iso''
       = (if fl = [] \<or> CHR ''d'' \<in> set fl then Some (Str (date_iso h)) else None)"
    by (rule emit_lookup(5))
  have k6: "map_of (emit fl h fs) ''subject''
       = (if fl = [] \<or> CHR ''s'' \<in> set fl then Some (Str (subject h)) else None)"
    by (rule emit_lookup(6))
  have k7: "map_of (emit fl h fs) ''files''
       = (if fl = [] \<or> CHR ''f'' \<in> set fl then Some (Files fs) else None)"
    by (rule emit_lookup(7))
  have k8: "map_of (emit fl h fs) ''parents''
       = (if fl = [] \<or> CHR ''p'' \<in> set fl then Some (Strs (parents h)) else None)"
    by (rule emit_lookup(8))
  have k9: "map_of (emit fl h fs) ''tree''
       = (if fl = [] \<or> CHR ''t'' \<in> set fl then Some (Str (tree h)) else None)"
    by (rule emit_lookup(9))
  have keys: "fst ` set (emit fl h fs)
       \<subseteq> {''sha'', ''name'', ''email'', ''date'', ''date_iso'', ''subject'', ''files'',
          ''parents'', ''tree''}"
    by (rule emit_keys)
  have same: "set f1 = set f2 \<longrightarrow> emit f1 h fs = emit f2 h fs"
  proof
    assume s: "set f1 = set f2"
    then have "f1 = [] \<longleftrightarrow> f2 = []"
      by (metis set_empty)
    with s have "\<And>c. wanted f1 c = wanted f2 c"
      by (simp add: wanted_def)
    then show "emit f1 h fs = emit f2 h fs"
      by (rule emit_wanted_cong)
  qed
  have swap: "emit ''as'' h fs = emit ''sa'' h fs"
    by (intro emit_wanted_cong) (auto simp: wanted_def)
  from order k1 k2 k3 k4 k5 k6 k7 k8 k9 keys same swap show ?thesis
    by (intro conjI)
qed

theorem field_filter_witness:
  "set ''fah'' = set ''haf''
   \<and> emit ''fah'' (block_header commit_a) (changes commit_a)
     = emit ''haf'' (block_header commit_a) (changes commit_a)
   \<and> emit ''haf'' (block_header commit_a) (changes commit_a)
     = [(''sha'', Str ''a1b2c3d''), (''name'', Str ''Alice''),
        (''files'', Files [\<lparr>ins = ''3'', del = ''1'', path = ''foo.txt''\<rparr>,
                           \<lparr>ins = ''-'', del = ''-'', path = ''bin.dat''\<rparr>])]"
proof -
  have s: "set ''fah'' = set ''haf''"
    by auto
  have v: "emit ''haf'' (block_header commit_a) (changes commit_a)
     = [(''sha'', Str ''a1b2c3d''), (''name'', Str ''Alice''),
        (''files'', Files [\<lparr>ins = ''3'', del = ''1'', path = ''foo.txt''\<rparr>,
                           \<lparr>ins = ''-'', del = ''-'', path = ''bin.dat''\<rparr>])]"
    by (simp add: emit_items wanted_def block_header_def commit_a_def)
  from field_filter [of "block_header commit_a" "changes commit_a" "''fah''" "''fah''" "''haf''"] s
  have "emit ''fah'' (block_header commit_a) (changes commit_a)
     = emit ''haf'' (block_header commit_a) (changes commit_a)"
    by blast
  with s v show ?thesis by blast
qed

section \<open>The parser on the text the command prints\<close>

lemma lines_of_snoc: "lines_of (ks @ [b]) = lines_of ks @ render_block b"
  by (simp add: lines_of_def)

lemma parse_commits_upto_last:
  assumes "list_all wf_block ks"
  shows "parse_commits fl (lines_of ks @ render_block b @ rest) 0 []
         = parse_commits fl (lines_of ks @ render_block b @ rest) (length (lines_of ks))
             (map (block_record fl) ks)"
proof -
  have "parse_commits fl ([] @ lines_of ks @ render_block b @ rest)
          (length ([] :: string list)) []
        = parse_commits fl ([] @ lines_of ks @ render_block b @ rest)
            (length ([] :: string list) + length (lines_of ks)) ([] @ map (block_record fl) ks)"
    using assms by (intro parse_commits_blocks) (simp_all add: render_block_def)
  then show ?thesis by simp
qed

lemma parse_lines_terminated:
  assumes "list_all wf_block bs"
  shows "parse_commits fl (lines_of bs @ [[]]) 0 [] = (map (block_record fl) bs, Returned)"
proof (cases bs rule: rev_cases)
  case Nil
  then show ?thesis
    using parse_commits_stop [of "[[]]" fl "[]" "[]"] by (simp add: lines_of_def)
next
  case (snoc ks b)
  with assms have ks: "list_all wf_block ks" and b: "wf_block b"
    by simp_all
  have "parse_commits fl (lines_of ks @ render_block b @ [[]]) (length (lines_of ks))
          (map (block_record fl) ks) = (map (block_record fl) ks @ [block_record fl b], Returned)"
  proof (cases "changes b = []")
    case True
    then show ?thesis
      by (intro parse_commits_last_blank) (simp_all add: START_OF_COMMIT_def)
  next
    case False
    with b show ?thesis
      by (intro parse_commits_last_files) simp_all
  qed
  then show ?thesis
    using parse_commits_upto_last [OF ks, of fl b "[[]]"] by (simp add: snoc lines_of_snoc)
qed

lemma parse_lines_stripped:
  assumes "list_all wf_block (ks @ [b])" and "changes b \<noteq> []"
  shows "parse_commits fl (lines_of (ks @ [b])) 0 []
         = (map (block_record fl) (ks @ [b]), Returned)"
proof -
  from assms have ks: "list_all wf_block ks" and b: "wf_block b"
    by simp_all
  have "parse_commits fl (lines_of ks @ render_block b @ []) (length (lines_of ks))
          (map (block_record fl) ks) = (map (block_record fl) ks @ [block_record fl b], Returned)"
    using b assms(2) by (intro parse_commits_last_files) simp_all
  then show ?thesis
    using parse_commits_upto_last [OF ks, of fl b "[]"] by (simp add: lines_of_snoc)
qed

lemma parse_lines_cut:
  assumes "list_all wf_block (ks @ [b])" and "changes b = []"
  shows "parse_commits fl (lines_of (ks @ [b])) 0 []
         = (map (block_record fl) ks, Raised IndexError)"
proof -
  from assms have ks: "list_all wf_block ks"
    by simp
  have "parse_commits fl (lines_of ks @ render_block b) (length (lines_of ks))
          (map (block_record fl) ks) = (map (block_record fl) ks, Raised IndexError)"
    using assms(2) by (rule parse_commits_last_cut)
  then show ?thesis
    using parse_commits_upto_last [OF ks, of fl b "[]"] by (simp add: lines_of_snoc)
qed

lemma unlines_snoc: "unlines (ks @ [l]) = unlines ks @ l @ [newline]"
  by (simp add: unlines_def)

lemma universal_newlines_plain:
  "carriage_return \<notin> set s \<Longrightarrow> universal_newlines s = s"
  by (induction s rule: universal_newlines.induct) auto

lemma unlines_plain:
  "list_all (\<lambda>l. carriage_return \<notin> set l) ls \<Longrightarrow> carriage_return \<notin> set (unlines ls)"
  by (induction ls) (simp_all add: unlines_def)

lemma render_block_plain:
  "no_carriage_return b \<Longrightarrow> list_all (\<lambda>l. carriage_return \<notin> set l) (render_block b)"
  by (auto simp: no_carriage_return_def render_block_def START_OF_COMMIT_def list_all_iff
      numstat_line_def)

lemma lines_of_plain:
  "list_all no_carriage_return bs
   \<Longrightarrow> list_all (\<lambda>l. carriage_return \<notin> set l) (lines_of bs)"
  by (induction bs) (simp_all add: lines_of_def render_block_plain)

lemma getoutput_unlines:
  assumes "list_all (\<lambda>l. carriage_return \<notin> set l) ls"
  shows "getoutput (prints (unlines ls)) c = (if ls = [] then [] else butlast (unlines ls))"
proof (cases ls rule: rev_cases)
  case Nil
  then show ?thesis by (simp add: getoutput_def unlines_def prints_def)
next
  case (snoc ks l)
  have "universal_newlines (unlines ls) = unlines ls"
    using assms by (intro universal_newlines_plain unlines_plain)
  then show ?thesis
    using snoc by (simp add: getoutput_def unlines_snoc Let_def prints_def)
qed

lemma lines_of_nonempty: "bs \<noteq> [] \<Longrightarrow> lines_of bs \<noteq> []"
  by (cases bs) (simp_all add: lines_of_def render_block_def)

lemma getoutput_lines:
  assumes "list_all wf_block bs" and "bs \<noteq> []" and "list_all no_carriage_return bs"
  shows "str_split (getoutput (prints (log_text bs)) c) newline = lines_of bs"
  using assms
  by (simp add: log_text_def getoutput_unlines lines_of_plain lines_of_nonempty
      str_split_unlines_cut lines_of_newline_free)

text \<open>The text with every line ended by a newline parses to one record per block.\<close>

lemma parse_output_terminated:
  "list_all wf_block bs
   \<Longrightarrow> parse_output fl (log_text bs) = (map (block_record fl) bs, Returned)"
  by (simp add: parse_output_def log_text_def str_split_unlines lines_of_newline_free
      parse_lines_terminated)

text \<open>What \<^verbatim>\<open>getoutput\<close> returns for that text parses to one record per block when
  the last block has file changes, and raises when it has none.\<close>

lemma parse_output_stripped:
  assumes "list_all wf_block bs" and "bs \<noteq> []" and "changes (last bs) \<noteq> []"
    and "list_all no_carriage_return bs"
  shows "parse_output fl (getoutput (prints (log_text bs)) c)
         = (map (block_record fl) bs, Returned)"
proof -
  from assms(2) obtain ks b where bs: "bs = ks @ [b]"
    by (cases bs rule: rev_cases) auto
  show ?thesis
    using assms parse_lines_stripped [of ks b fl]
    by (simp add: parse_output_def getoutput_lines bs del: map_append)
qed

lemma parse_output_cut:
  assumes "list_all wf_block bs" and "bs \<noteq> []" and "changes (last bs) = []"
    and "list_all no_carriage_return bs"
  shows "parse_output fl (getoutput (prints (log_text bs)) c)
         = (map (block_record fl) (butlast bs), Raised IndexError)"
proof -
  from assms(2) obtain ks b where bs: "bs = ks @ [b]"
    by (cases bs rule: rev_cases) auto
  show ?thesis
    using assms parse_lines_cut [of ks b fl]
    by (simp add: parse_output_def getoutput_lines bs del: map_append)
qed

section \<open>Facts about \<^verbatim>\<open>check_flags\<close>\<close>

lemma check_flags_loop_eq:
  "check_flags_loop fl allowed msg (written, has_error)
   = (written @ map (\<lambda>c. Stderr (msg @ '': '' @ [CHR 0x22, c, CHR 0x22, newline]))
                  (filter (\<lambda>c. c \<notin> set allowed) fl),
      has_error \<or> (\<exists>c \<in> set fl. c \<notin> set allowed))"
  by (induction fl arbitrary: written has_error) auto

lemma check_flags_bad:
  "\<exists>c \<in> set fl. c \<notin> set allowed
   \<Longrightarrow> check_flags fl allowed msg
       = (map (\<lambda>c. Stderr (msg @ '': '' @ [CHR 0x22, c, CHR 0x22, newline]))
            (filter (\<lambda>c. c \<notin> set allowed) fl),
          Exited (- 2))"
  by (simp add: check_flags_def check_flags_loop_eq)

lemma check_flags_good:
  "set fl \<subseteq> set allowed \<Longrightarrow> check_flags fl allowed msg = ([], Returned)"
proof -
  assume a: "set fl \<subseteq> set allowed"
  then have "filter (\<lambda>c. c \<notin> set allowed) fl = []"
    by (auto simp: filter_empty_conv)
  with a show ?thesis
    by (auto simp: check_flags_def check_flags_loop_eq)
qed

text \<open>
  Claim C6. A filter holding a character outside \<^verbatim>\<open>aehdsfpt\<close> ends \<^verbatim>\<open>git_log\<close> with
  \<^verbatim>\<open>sys.exit(-2)\<close>, a status that is not zero. All the run has done by then is to write
  one diagnostic per bad character to standard error: whatever the shell would print,
  no command was given to it, nothing was parsed and no file was written.
\<close>

theorem bad_filter_exits:
  assumes "\<exists>c \<in> set json_flags. c \<notin> set ''aehdsfpt''"
  shows "git_log shell args json_flags
           = (map (\<lambda>c. Stderr (''Unrecognized flag: '' @ [CHR 0x22, c, CHR 0x22, newline]))
                (filter (\<lambda>c. c \<notin> set ''aehdsfpt'') json_flags),
              Exited (- 2))
       \<and> (- 2 :: int) \<noteq> 0
       \<and> Shell git_log_command \<notin> set (fst (git_log shell args json_flags))
       \<and> (\<forall>file df. WriteCsv file df \<notin> set (fst (git_log shell args json_flags)))"
proof -
  have "git_log shell args json_flags
           = (map (\<lambda>c. Stderr (''Unrecognized flag: '' @ [CHR 0x22, c, CHR 0x22, newline]))
                (filter (\<lambda>c. c \<notin> set ''aehdsfpt'') json_flags),
              Exited (- 2))"
    unfolding git_log_def check_flags_bad [OF assms] by simp
  then show ?thesis by auto
qed

theorem bad_filter_exits_witness:
  "git_log (prints (log_text [commit_a])) [''log''] ''ax''
     = ([Stderr (''Unrecognized flag: '' @ [CHR 0x22, CHR ''x'', CHR 0x22, newline])],
        Exited (- 2))"
  using bad_filter_exits [of "''ax''" "prints (log_text [commit_a])" "[''log'']"]
  by simp

section \<open>Facts about the flattening\<close>

lemma extract_emit_complete:
  assumes "fl = [] \<or> set ''fadsh'' \<subseteq> set fl"
  shows "pull_records (emit fl h fs) ''files'' = Inr fs"
    and "pull_meta (emit fl h fs) [''name'', ''date_iso'', ''subject'', ''sha'']
         = Inr [Str (name h), Str (date_iso h), Str (subject h), Str (sha h)]"
  using assms by (auto simp: pull_records_def pull_field_def emit_lookup)

lemma recursive_extract_missing:
  assumes "fl \<noteq> []" and "\<not> set ''fadsh'' \<subseteq> set fl"
  shows "recursive_extract (emit fl h fs # cs) ''files''
           [''name'', ''date_iso'', ''subject'', ''sha'']
         = Inl (KeyError (missing_key fl))"
  using assms
  by (auto simp: pull_records_def pull_field_def emit_lookup missing_key_def)

lemma recursive_extract_blocks:
  assumes "fl = [] \<or> set ''fadsh'' \<subseteq> set fl"
  shows "recursive_extract (map (block_record fl) bs) ''files''
           [''name'', ''date_iso'', ''subject'', ''sha'']
         = Inr (map (\<lambda>b. (changes b,
                          [Str (name_line b), Str (date_iso_line b), Str (subject_line b),
                           Str (sha_line b)])) bs)"
proof (induction bs)
  case Nil
  show ?case by simp
next
  case (Cons b bs)
  have "pull_records (block_record fl b) ''files'' = Inr (changes b)"
    and "pull_meta (block_record fl b) [''name'', ''date_iso'', ''subject'', ''sha'']
         = Inr [Str (name_line b), Str (date_iso_line b), Str (subject_line b),
                Str (sha_line b)]"
    using extract_emit_complete [OF assms, of "block_header b" "changes b"]
    by (simp_all add: block_record_def block_header_def)
  with Cons.IH show ?case
    by (simp del: pull_meta.simps)
qed

lemma json_normalize_blocks:
  assumes "fl = [] \<or> set ''fadsh'' \<subseteq> set fl" and "bs \<noteq> []"
  shows "json_normalize (map (block_record fl) bs) ''files''
           [''name'', ''date_iso'', ''subject'', ''sha'']
         = Inr \<lparr>columns =
                  (if concat (map changes bs) = [] then [] else [''ins'', ''del'', ''path''])
                  @ [''name'', ''date_iso'', ''subject'', ''sha''],
                rows = concat (map block_rows bs)\<rparr>"
proof -
  have r: "(\<lambda>(recs, vals). map (\<lambda>f. record_cells f @ vals) recs)
           \<circ> (\<lambda>b. (changes b, [Str (name_line b), Str (date_iso_line b),
                                 Str (subject_line b), Str (sha_line b)]))
           = block_rows"
    by (simp add: fun_eq_iff block_rows_def record_cells_def)
  have f: "fst \<circ> (\<lambda>b. (changes b, [Str (name_line b), Str (date_iso_line b),
                                     Str (subject_line b), Str (sha_line b)])) = changes"
    by (simp add: fun_eq_iff)
  show ?thesis
    using assms(2)
    by (simp add: json_normalize_def recursive_extract_blocks [OF assms(1)] r f)
qed

lemma json_normalize_missing:
  assumes "fl \<noteq> []" and "\<not> set ''fadsh'' \<subseteq> set fl"
  shows "json_normalize (emit fl h fs # cs) ''files'' [''name'', ''date_iso'', ''subject'', ''sha'']
         = Inl (KeyError (missing_key fl))"
  by (simp add: json_normalize_def recursive_extract_missing [OF assms]
      del: recursive_extract.simps)

section \<open>Facts about whole runs of \<^verbatim>\<open>git_log\<close>\<close>

lemma git_log_ignores_args: "git_log shell args json_flags = git_log shell args' json_flags"
  by (simp add: git_log_def Let_def split: prod.splits outcome.splits)

lemma git_log_good_flags:
  assumes "set fl \<subseteq> set ''aehdsfpt''"
  shows "git_log shell args fl
         = (case parse_output fl (getoutput shell git_log_command) of
              (commits, Raised e) \<Rightarrow> ([Shell git_log_command], Raised e)
            | (commits, _) \<Rightarrow>
                (case json_normalize commits ''files''
                        [''name'', ''date_iso'', ''subject'', ''sha''] of
                   Inl e \<Rightarrow> ([Shell git_log_command], Raised e)
                 | Inr df \<Rightarrow>
                     ([Shell git_log_command, WriteCsv ''log.csv'' df], Returned)))"
  unfolding git_log_def check_flags_good [OF assms]
  by (simp add: Let_def split: prod.splits outcome.splits sum.splits)

lemma last_changes_concat:
  "bs \<noteq> [] \<Longrightarrow> changes (last bs) \<noteq> [] \<Longrightarrow> concat (map changes bs) \<noteq> []"
  by (cases bs rule: rev_cases) auto

lemma git_log_flattens:
  assumes "list_all wf_block bs" and "bs \<noteq> []" and "changes (last bs) \<noteq> []"
    and "set fl \<subseteq> set ''aehdsfpt''"
    and "fl = [] \<or> set ''fadsh'' \<subseteq> set fl"
    and "list_all no_carriage_return bs"
  shows "git_log (prints (log_text bs)) args fl
         = ([Shell git_log_command,
             WriteCsv ''log.csv''
               \<lparr>columns = [''ins'', ''del'', ''path'', ''name'', ''date_iso'', ''subject'',
                           ''sha''],
                rows = concat (map block_rows bs)\<rparr>],
            Returned)"
  using last_changes_concat [OF assms(2,3)]
  by (simp add: git_log_good_flags [OF assms(4)] parse_output_stripped [OF assms(1,2,3,6)]
      json_normalize_blocks [OF assms(5,2)])

lemma git_log_cut:
  assumes "list_all wf_block bs" and "bs \<noteq> []" and "changes (last bs) = []"
    and "set fl \<subseteq> set ''aehdsfpt''"
    and "list_all no_carriage_return bs"
  shows "git_log (prints (log_text bs)) args fl = ([Shell git_log_command], Raised IndexError)"
  by (simp add: git_log_good_flags [OF assms(4)] parse_output_cut [OF assms(1,2,3,5)])

lemma parse_commits_emitted:
  assumes "parse_commits fl lines i acc = (cs, out)"
    and "list_all (\<lambda>c. \<exists>h fs. c = emit fl h fs) acc"
  shows "list_all (\<lambda>c. \<exists>h fs. c = emit fl h fs) cs"
  using assms
proof (induction fl lines i acc rule: parse_commits.induct)
  case (1 fl lines i acc)
  show ?case
  proof (cases "i < length lines \<and> lines ! i \<noteq> []")
    case False
    with "1.prems" show ?thesis
      by (subst (asm) parse_commits.simps) (auto split: if_splits)
  next
    case True
    show ?thesis
    proof (cases "read_header lines (i + 1)")
      case (Inl e)
      with True "1.prems" show ?thesis
        by (subst (asm) parse_commits.simps) auto
    next
      case h: (Inr h)
      show ?thesis
      proof (cases "read_files lines (i + 9)")
        case (Inl e)
        with True h "1.prems" show ?thesis
          by (subst (asm) parse_commits.simps) auto
      next
        case (Inr x)
        obtain j fs where x: "x = (j, fs)"
          by (cases x)
        have step: "parse_commits fl lines j (acc @ [emit fl h fs]) = (cs, out)"
          using True h Inr x "1.prems"(1) by (subst (asm) parse_commits.simps) simp
        have acc: "list_all (\<lambda>c. \<exists>h fs. c = emit fl h fs) (acc @ [emit fl h fs])"
          using "1.prems"(2) by auto
        from True have t1: "i < length lines" and t2: "lines ! i \<noteq> []"
          by simp_all
        show ?thesis
          by (rule "1.IH" [OF t1 t2 h Inr x [symmetric] step acc])
      qed
    qed
  qed
qed

lemma parse_output_emitted:
  "parse_output fl text = (c # cs, out) \<Longrightarrow> \<exists>h fs. c = emit fl h fs"
  using parse_commits_emitted [of fl "str_split text newline" 0 "[]" "c # cs" out]
  by (simp add: parse_output_def)

lemma wf_example_blocks:
  "list_all wf_block [commit_a]" "list_all wf_block [commit_a, commit_b]"
  "list_all wf_block [commit_c, commit_a]"
  by (simp_all add: wf_commit_a wf_commit_b wf_commit_c)

lemma plain_example_blocks:
  "list_all no_carriage_return [commit_a]" "list_all no_carriage_return [commit_a, commit_b]"
  "list_all no_carriage_return [commit_c, commit_a]"
  by (simp_all add: no_carriage_return_def header_lines_def commit_a_def commit_b_def
      commit_c_def)

text \<open>
  Claim C1, at an input where the code fails it. The command prints two commits under
  the template, the older one changing no file, as \<^verbatim>\<open>git commit --allow-empty\<close> makes
  them. \<^verbatim>\<open>getoutput\<close> drops the final newline, the read of line 165 is past the last
  line, and the run ends in \<^verbatim>\<open>IndexError\<close> with no file written. The same text with
  its final newline parses to one record per marker.
\<close>

theorem empty_last_commit_raises:
  "git_log (prints (log_text [commit_a, commit_b])) [''log''] []
     = ([Shell git_log_command], Raised IndexError)
   \<and> parse_output [] (getoutput (prints (log_text [commit_a, commit_b])) git_log_command)
     = ([block_record [] commit_a], Raised IndexError)
   \<and> parse_output [] (log_text [commit_a, commit_b])
     = ([block_record [] commit_a, block_record [] commit_b], Returned)"
proof -
  have last: "changes (last [commit_a, commit_b]) = []"
    by (simp add: commit_b_def)
  have "git_log (prints (log_text [commit_a, commit_b])) [''log''] []
     = ([Shell git_log_command], Raised IndexError)"
    using wf_example_blocks(2) plain_example_blocks(2) last by (intro git_log_cut) simp_all
  moreover
  have "parse_output [] (getoutput (prints (log_text [commit_a, commit_b])) git_log_command)
     = ([block_record [] commit_a], Raised IndexError)"
    using parse_output_cut [OF wf_example_blocks(2) _ last plain_example_blocks(2),
        of "[]" git_log_command]
    by simp
  moreover
  have "parse_output [] (log_text [commit_a, commit_b])
     = ([block_record [] commit_a, block_record [] commit_b], Returned)"
    using parse_output_terminated [OF wf_example_blocks(2), of "[]"] by simp
  ultimately show ?thesis by simp
qed

text \<open>
  Claim C2, at an input where the code fails it. In what \<^verbatim>\<open>getoutput\<close> returns for two
  commits, the older one changing no file, the header block of the second commit ends
  the input: its marker is line 12 and the cursor after its eight header lines is 21,
  the number of lines. That block is followed neither by a marker nor by a separator
  line, and lines 162 to 173 give no file list for it: the read of line 165 raises
  \<^verbatim>\<open>IndexError\<close>. For the first block, followed by a separator line, the two numstat
  lines are consumed.
\<close>

theorem header_block_at_end_raises:
  "str_split (getoutput (prints (log_text [commit_a, commit_b])) git_log_command) newline
     = lines_of [commit_a, commit_b]
   \<and> length (lines_of [commit_a, commit_b]) = 21
   \<and> lines_of [commit_a, commit_b] ! 12 = START_OF_COMMIT
   \<and> read_files (lines_of [commit_a, commit_b]) 9
     = Inr (12, [\<lparr>ins = ''3'', del = ''1'', path = ''foo.txt''\<rparr>,
                 \<lparr>ins = ''-'', del = ''-'', path = ''bin.dat''\<rparr>])
   \<and> read_files (lines_of [commit_a, commit_b]) 21 = Inl IndexError"
proof -
  have "str_split (getoutput (prints (log_text [commit_a, commit_b])) git_log_command) newline
     = lines_of [commit_a, commit_b]"
    using wf_example_blocks(2) plain_example_blocks(2) by (intro getoutput_lines) simp_all
  moreover have len: "length (lines_of [commit_a, commit_b]) = 21"
    by (simp add: lines_of_def length_render_block commit_a_def commit_b_def)
  moreover have "lines_of [commit_a, commit_b] ! 12 = START_OF_COMMIT"
    by (simp add: lines_of_def render_block_def header_lines_def commit_a_def commit_b_def)
  moreover have "read_files (lines_of [commit_a, commit_b]) 9
     = Inr (12, [\<lparr>ins = ''3'', del = ''1'', path = ''foo.txt''\<rparr>,
                 \<lparr>ins = ''-'', del = ''-'', path = ''bin.dat''\<rparr>])"
    using numstat_block_consumed_example by simp
  moreover have "read_files (lines_of [commit_a, commit_b]) 21 = Inl IndexError"
    using read_files_end [of "lines_of [commit_a, commit_b]"] by (simp add: len)
  ultimately show ?thesis by simp
qed

text \<open>
  Claim C4, as amended. Take a text of well-formed commits with no carriage return in
  it, the last commit printed having file changes, and a filter that is empty or holds
  \<^verbatim>\<open>f\<close>, \<^verbatim>\<open>a\<close>, \<^verbatim>\<open>d\<close>, \<^verbatim>\<open>s\<close> and \<^verbatim>\<open>h\<close> among allowed codes. Then the run writes
  \<^verbatim>\<open>log.csv\<close> from a frame whose rows are, commit by commit in order, one row per file
  change with the author name, ISO date, subject and hash of the commit repeated on it:
  a commit with N file changes gives N rows, so one with none gives no row. What the
  run does when the last commit printed has no file change is not part of this
  statement.
\<close>

theorem rows_per_file_change:
  assumes "list_all wf_block bs" and "bs \<noteq> []" and "changes (last bs) \<noteq> []"
    and "set fl \<subseteq> set ''aehdsfpt''"
    and "fl = [] \<or> set ''fadsh'' \<subseteq> set fl"
    and "list_all no_carriage_return bs"
  shows "git_log (prints (log_text bs)) args fl
           = ([Shell git_log_command,
               WriteCsv ''log.csv''
                 \<lparr>columns = [''ins'', ''del'', ''path'', ''name'', ''date_iso'', ''subject'',
                             ''sha''],
                  rows = concat (map block_rows bs)\<rparr>],
              Returned)
       \<and> list_all (\<lambda>b. length (block_rows b) = length (changes b)
                      \<and> list_all (\<lambda>r. drop 3 r = [Str (name_line b), Str (date_iso_line b),
                                                   Str (subject_line b), Str (sha_line b)])
                           (block_rows b)) bs
       \<and> length (concat (map block_rows bs)) = sum_list (map (\<lambda>b. length (changes b)) bs)"
proof -
  have "list_all (\<lambda>b. length (block_rows b) = length (changes b)
                      \<and> list_all (\<lambda>r. drop 3 r = [Str (name_line b), Str (date_iso_line b),
                                                   Str (subject_line b), Str (sha_line b)])
                           (block_rows b)) bs"
    by (simp add: block_rows_def list_all_iff)
  moreover have "length (concat (map block_rows bs))
                 = sum_list (map (\<lambda>b. length (changes b)) bs)"
    by (simp add: length_concat block_rows_def comp_def)
  ultimately show ?thesis
    using git_log_flattens [OF assms] by simp
qed

theorem rows_per_file_change_witness:
  "git_log (prints (log_text [commit_c, commit_a])) [''log''] ''hfdsa''
     = ([Shell git_log_command,
         WriteCsv ''log.csv''
           \<lparr>columns = [''ins'', ''del'', ''path'', ''name'', ''date_iso'', ''subject'',
                       ''sha''],
            rows = concat (map block_rows [commit_c, commit_a])\<rparr>],
        Returned)
   \<and> length (block_rows commit_c) = 0 \<and> length (block_rows commit_a) = 2"
  using rows_per_file_change [of "[commit_c, commit_a]" "''hfdsa''" "[''log'']"]
    wf_example_blocks(3) plain_example_blocks(3)
  by (simp add: commit_a_def commit_c_def)

text \<open>
  Claim C4 as stated fails: for a stream of two commits, a merge with no file change
  and then a commit with two, the frame written has two rows, not three; the commit
  without file changes has no row. With the commit without file changes printed last,
  the run writes no row at all.
\<close>

theorem zero_file_commit_has_no_row:
  "git_log (prints (log_text [commit_a, commit_b])) [''log''] []
     = ([Shell git_log_command], Raised IndexError)
   \<and> git_log (prints (log_text [commit_c, commit_a])) [''log''] []
     = ([Shell git_log_command,
         WriteCsv ''log.csv''
           \<lparr>columns = [''ins'', ''del'', ''path'', ''name'', ''date_iso'', ''subject'',
                       ''sha''],
            rows = [[Str ''3'', Str ''1'', Str ''foo.txt'', Str ''Alice'',
                     Str ''2023-11-14 22:13:20 +0000'', Str ''Add parser'', Str ''a1b2c3d''],
                    [Str ''-'', Str ''-'', Str ''bin.dat'', Str ''Alice'',
                     Str ''2023-11-14 22:13:20 +0000'', Str ''Add parser'',
                     Str ''a1b2c3d'']]\<rparr>],
        Returned)"
proof -
  have "concat (map block_rows [commit_c, commit_a])
        = [[Str ''3'', Str ''1'', Str ''foo.txt'', Str ''Alice'',
            Str ''2023-11-14 22:13:20 +0000'', Str ''Add parser'', Str ''a1b2c3d''],
           [Str ''-'', Str ''-'', Str ''bin.dat'', Str ''Alice'',
            Str ''2023-11-14 22:13:20 +0000'', Str ''Add parser'', Str ''a1b2c3d'']]"
    by (simp add: block_rows_def commit_a_def commit_c_def)
  moreover have "changes (last [commit_c, commit_a]) \<noteq> []"
    by (simp add: commit_a_def)
  moreover have "git_log (prints (log_text [commit_a, commit_b])) [''log''] []
     = ([Shell git_log_command], Raised IndexError)"
    using wf_example_blocks(2) plain_example_blocks(2)
    by (intro git_log_cut) (simp_all add: commit_b_def)
  ultimately show ?thesis
    using git_log_flattens [OF wf_example_blocks(3), of "[]" "[''log'']"]
      plain_example_blocks(3)
    by simp
qed

text \<open>
  Claim C5, at an input where the code fails it. \<^verbatim>\<open>git_log\<close> composes the argument list
  with the caller's \<^verbatim>\<open>-n 5\<close> in it, but the command line it gives to the shell is the
  literal of line 136, whose words hold neither; the run is the one of any other
  argument list.
\<close>

theorem caller_arguments_dropped:
  "git_log_args [''log'', ''-n'', ''5'']
     = [''log'', ''-n'', ''5'',
        ''--pretty=tformat:@@@@@@@@@@%n%h%n%aN%n%aE%n%at%n%ai%n%p%n%t%n%s'',
        ''--date=local'', ''--numstat'']
   \<and> fst (git_log (prints (log_text [commit_a])) [''log'', ''-n'', ''5''] []) ! 0
     = Shell git_log_command
   \<and> str_split git_log_command CHR '' ''
     = [''git'', ''log'',
        ''--pretty=tformat:@@@@@@@@@@%n%h%n%aN%n%aE%n%at%n%ai%n%p%n%t%n%s'',
        ''--date=local'', ''--numstat'']
   \<and> git_log (prints (log_text [commit_a])) [''log'', ''-n'', ''5''] []
     = git_log (prints (log_text [commit_a])) [''log''] []"
proof -
  have "git_log_args [''log'', ''-n'', ''5'']
     = [''log'', ''-n'', ''5'',
        ''--pretty=tformat:@@@@@@@@@@%n%h%n%aN%n%aE%n%at%n%ai%n%p%n%t%n%s'',
        ''--date=local'', ''--numstat'']"
    by (simp add: git_log_args_def remove_elements_def startswith_def START_OF_COMMIT_def)
  moreover
  have "changes (last [commit_a]) \<noteq> []"
    by (simp add: commit_a_def)
  then have "fst (git_log (prints (log_text [commit_a])) [''log'', ''-n'', ''5''] []) ! 0
     = Shell git_log_command"
    using git_log_flattens [OF wf_example_blocks(1), of "[]" "[''log'', ''-n'', ''5'']"]
      plain_example_blocks(1)
    by simp
  moreover
  have "str_split git_log_command CHR '' ''
     = [''git'', ''log'',
        ''--pretty=tformat:@@@@@@@@@@%n%h%n%aN%n%aE%n%at%n%ai%n%p%n%t%n%s'',
        ''--date=local'', ''--numstat'']"
    by (simp add: git_log_command_def)
  moreover
  have "git_log (prints (log_text [commit_a])) [''log'', ''-n'', ''5''] []
     = git_log (prints (log_text [commit_a])) [''log''] []"
    by (rule git_log_ignores_args)
  ultimately show ?thesis by simp
qed

text \<open>
  Claim C10, as amended. For a filter that is not empty, holds only allowed codes and
  lacks one of \<^verbatim>\<open>f\<close>, \<^verbatim>\<open>a\<close>, \<^verbatim>\<open>d\<close>, \<^verbatim>\<open>s\<close>, \<^verbatim>\<open>h\<close>, whenever the parser returns at least
  one commit the run ends in the flattening with \<^verbatim>\<open>KeyError\<close> for the first key looked
  up that the filter leaves out; the command has been run and no file is written.
\<close>

theorem missing_code_key_error:
  assumes "json_flags \<noteq> []"
    and "set json_flags \<subseteq> set ''aehdsfpt''"
    and "\<not> set ''fadsh'' \<subseteq> set json_flags"
    and "parse_output json_flags (getoutput shell git_log_command) = (c # cs, Returned)"
  shows "git_log shell args json_flags
         = ([Shell git_log_command], Raised (KeyError (missing_key json_flags)))"
proof -
  from parse_output_emitted [OF assms(4)]
  obtain h fs where c: "c = emit json_flags h fs"
    by blast
  show ?thesis
    by (simp add: git_log_good_flags [OF assms(2)] assms(4) c
        json_normalize_missing [OF assms(1,3)])
qed

theorem missing_code_key_error_witness:
  "git_log (prints (log_text [commit_a])) [''log''] ''ehf''
     = ([Shell git_log_command], Raised (KeyError ''name''))"
proof -
  have "changes (last [commit_a]) \<noteq> []"
    by (simp add: commit_a_def)
  then have "parse_output ''ehf'' (getoutput (prints (log_text [commit_a])) git_log_command)
        = (block_record ''ehf'' commit_a # [], Returned)"
    using parse_output_stripped [OF wf_example_blocks(1), of "''ehf''" git_log_command]
      plain_example_blocks(1)
    by simp
  from missing_code_key_error [OF _ _ _ this, of "[''log'']"] show ?thesis
    by (simp add: missing_key_def)
qed

text \<open>
  Claim C10 as stated fails twice. When the command prints nothing, the parser
  returns no commit and the run with the filter \<^verbatim>\<open>e\<close> writes the file of the empty
  frame. With the filter \<^verbatim>\<open>x\<close>, which also lacks the five codes, the run ends in
  \<^verbatim>\<open>check_flags\<close> before the command is run and before any parsing.
\<close>

theorem missing_code_without_key_error:
  "git_log (prints []) [''log''] ''e''
     = ([Shell git_log_command, WriteCsv ''log.csv'' \<lparr>columns = [], rows = []\<rparr>], Returned)
   \<and> git_log (prints (log_text [commit_a])) [''log''] ''x''
     = ([Stderr (''Unrecognized flag: '' @ [CHR 0x22, CHR ''x'', CHR 0x22, newline])],
        Exited (- 2))"
proof -
  have "parse_output ''e'' (getoutput (prints []) git_log_command) = ([], Returned)"
    using parse_commits_stop [of "[[]]" "''e''" "[]" "[]"]
    by (simp add: parse_output_def getoutput_def prints_def)
  then have "git_log (prints []) [''log''] ''e''
     = ([Shell git_log_command, WriteCsv ''log.csv'' \<lparr>columns = [], rows = []\<rparr>], Returned)"
    by (simp add: git_log_good_flags json_normalize_def)
  moreover
  have "git_log (prints (log_text [commit_a])) [''log''] ''x''
     = ([Stderr (''Unrecognized flag: '' @ [CHR 0x22, CHR ''x'', CHR 0x22, newline])],
        Exited (- 2))"
    unfolding git_log_def by (simp add: check_flags_bad)
  ultimately show ?thesis by simp
qed

section \<open>Facts about \<^verbatim>\<open>git_shortlog\<close>\<close>

lemma str_split_nonempty: "str_split s c \<noteq> []"
  by (induction s) (auto split: list.splits)

lemma hd_str_split: "hd (str_split s c) = takeWhile (\<lambda>x. x \<noteq> c) s"
  by (induction s) (auto split: list.splits simp: str_split_nonempty)

lemma tl_str_split:
  "c \<in> set s \<Longrightarrow> tl (str_split s c) = str_split (tl (dropWhile (\<lambda>x. x \<noteq> c) s)) c"
  by (induction s) (auto split: list.splits simp: str_split_nonempty)

lemma length_str_split: "1 < length (str_split s c) \<longleftrightarrow> c \<in> set s"
proof (induction s)
  case Nil
  show ?case by simp
next
  case (Cons x s)
  then show ?case
    using str_split_nonempty [of s c]
    by (cases "str_split s c") (auto split: list.splits)
qed

lemma str_join_split:
  "str_join [d] (str_split s c) = map (\<lambda>x. if x = c then d else x) s"
proof (induction s)
  case Nil
  show ?case by simp
next
  case (Cons x s)
  obtain w ws where w: "str_split s c = w # ws"
    using str_split_nonempty [of s c] by (cases "str_split s c") auto
  show ?case
  proof (cases "x = c")
    case True
    with Cons w show ?thesis by simp
  next
    case False
    with Cons w show ?thesis by (cases ws) auto
  qed
qed

lemma shortlog_fields:
  assumes "tab \<in> set (str_strip line)"
  shows "str_split (str_strip line) tab ! 0 = count_field line"
    and "str_join '' '' (tl (str_split (str_strip line) tab)) = author_label line"
proof -
  have "str_split (str_strip line) tab \<noteq> []"
    by (rule str_split_nonempty)
  then show "str_split (str_strip line) tab ! 0 = count_field line"
    using hd_str_split [of "str_strip line" tab] by (simp add: count_field_def hd_conv_nth)
  show "str_join '' '' (tl (str_split (str_strip line) tab)) = author_label line"
    using str_join_split [of "CHR '' ''" "tl (dropWhile (\<lambda>x. x \<noteq> tab) (str_strip line))" tab]
    by (simp add: tl_str_split [OF assms] author_label_def)
qed

lemma shortlog_line_skip:
  "tab \<notin> set (str_strip line) \<Longrightarrow> shortlog_line e line entries = Inr entries"
  using length_str_split [of "str_strip line" tab]
  by (simp add: shortlog_line_def Let_def)

lemma shortlog_line_parsed:
  assumes "tab \<in> set (str_strip line)"
  shows "shortlog_line e line entries =
     (case py_int (count_field line) of
        Inl err \<Rightarrow> Inl err
      | Inr n \<Rightarrow>
          if e then
            (if length (str_split (author_label line) CHR ''<'') = 2 then
               Inr (entries @
                    [[(''name'', Str (str_strip (str_split (author_label line) CHR ''<'' ! 0))),
                      (''email'',
                       Str (butlast (str_strip (str_split (author_label line) CHR ''<'' ! 1)))),
                      (''count'', Num n)]])
             else Inr entries)
          else Inr (entries @ [[(''name'', Str (author_label line)), (''count'', Num n)]]))"
  using length_str_split [of "str_strip line" tab] assms
  by (simp add: shortlog_line_def Let_def shortlog_fields [OF assms]
      split: sum.splits)

lemma set_str_strip: "set (str_strip s) \<subseteq> set s"
proof -
  have "set (str_strip s) = set (dropWhile isspace (rev (dropWhile isspace s)))"
    by (simp add: str_strip_def)
  also have "\<dots> \<subseteq> set (rev (dropWhile isspace s))"
    by (rule set_dropWhileD [THEN subsetI])
  also have "\<dots> \<subseteq> set s"
    using set_dropWhileD [of _ isspace s] by auto
  finally show ?thesis .
qed

text \<open>
  The body of the loop, lines 92 to 105, on a line that is a string. It trims the
  line first. A line with no tab
  left after trimming, so also every line without a tab, leaves the entries as they
  are. Otherwise the text before the first tab is given to \<^verbatim>\<open>int\<close>, whose error ends
  the loop, and the label is the text after the first tab with every further tab turned
  into a space. Without email aggregation the entry is the label and the count. With
  it, a label that splits on \<^verbatim>\<open><\<close> into two parts gives the trimmed first part as name
  and the trimmed second part less its last character as email; any other number of
  parts leaves the entries as they are.
\<close>

lemma shortlog_line_entry:
  "(tab \<notin> set line \<longrightarrow> tab \<notin> set (str_strip line))
   \<and> (tab \<notin> set (str_strip line) \<longrightarrow> shortlog_line e line entries = Inr entries)
   \<and> (tab \<in> set (str_strip line) \<and> py_int (count_field line) = Inl err
        \<longrightarrow> shortlog_line e line entries = Inl err)
   \<and> (tab \<in> set (str_strip line) \<and> py_int (count_field line) = Inr n
        \<longrightarrow> shortlog_line False line entries
              = Inr (entries @ [[(''name'', Str (author_label line)), (''count'', Num n)]])
          \<and> (str_split (author_label line) CHR ''<'' = [a, b]
               \<longrightarrow> shortlog_line True line entries
                     = Inr (entries @
                            [[(''name'', Str (str_strip a)),
                              (''email'', Str (butlast (str_strip b))),
                              (''count'', Num n)]]))
          \<and> (length (str_split (author_label line) CHR ''<'') \<noteq> 2
               \<longrightarrow> shortlog_line True line entries = Inr entries))"
proof -
  have "tab \<notin> set line \<longrightarrow> tab \<notin> set (str_strip line)"
    using set_str_strip [of line] by auto
  moreover have "tab \<notin> set (str_strip line) \<longrightarrow> shortlog_line e line entries = Inr entries"
    by (simp add: shortlog_line_skip)
  moreover have "tab \<in> set (str_strip line) \<and> py_int (count_field line) = Inl err
        \<longrightarrow> shortlog_line e line entries = Inl err"
    by (simp add: shortlog_line_parsed)
  moreover have "tab \<in> set (str_strip line) \<and> py_int (count_field line) = Inr n
        \<longrightarrow> shortlog_line False line entries
              = Inr (entries @ [[(''name'', Str (author_label line)), (''count'', Num n)]])
          \<and> (str_split (author_label line) CHR ''<'' = [a, b]
               \<longrightarrow> shortlog_line True line entries
                     = Inr (entries @
                            [[(''name'', Str (str_strip a)),
                              (''email'', Str (butlast (str_strip b))),
                              (''count'', Num n)]]))
          \<and> (length (str_split (author_label line) CHR ''<'') \<noteq> 2
               \<longrightarrow> shortlog_line True line entries = Inr entries)"
    by (simp add: shortlog_line_parsed)
  ultimately show ?thesis by blast
qed

lemma example_line_fields:
  "tab \<in> set (str_strip (''  5'' @ [tab] @ ''Alice <a@example.com>''))"
  "py_int (count_field (''  5'' @ [tab] @ ''Alice <a@example.com>'')) = Inr 5"
  "author_label (''  5'' @ [tab] @ ''Alice <a@example.com>'') = ''Alice <a@example.com>''"
  by (simp_all add: str_strip_def isspace_def count_field_def author_label_def py_int_def
      int_space_def ascii_digit_def digits_value_def)

lemma shortlog_line_entry_example:
  "shortlog_line False (''  5'' @ [tab] @ ''Alice <a@example.com>'') []
     = Inr [[(''name'', Str ''Alice <a@example.com>''), (''count'', Num 5)]]
   \<and> shortlog_line True (''  5'' @ [tab] @ ''Alice <a@example.com>'') []
     = Inr [[(''name'', Str ''Alice''), (''email'', Str ''a@example.com''), (''count'', Num 5)]]
   \<and> shortlog_line True ''no tab in this line'' [] = Inr []"
proof -
  have s: "str_split ''Alice <a@example.com>'' CHR ''<'' = [''Alice '', ''a@example.com>'']"
    by simp
  have t: "str_strip ''Alice '' = ''Alice''" "butlast (str_strip ''a@example.com>'') = ''a@example.com''"
    by (simp_all add: str_strip_def isspace_def)
  have n: "tab \<notin> set ''no tab in this line''"
    by simp
  from shortlog_line_entry [of "''  5'' @ [tab] @ ''Alice <a@example.com>''" e "[]" err 5
      "''Alice ''" "''a@example.com>''"]
    shortlog_line_entry [of "''no tab in this line''" True "[]" err 5 a b]
  show ?thesis
    using example_line_fields s t n by simp
qed

text \<open>
  Three lines that show the details of the body of the loop. A line with two tabs gets
  the label
  \<^verbatim>\<open>Alice Smith\<close>, which is not the text after the first tab. A line whose only tab is
  at its end is trimmed to a line without a tab and skipped. A label whose second part
  does not end with \<^verbatim>\<open>>\<close> still loses its last character.
\<close>

lemma shortlog_line_differs:
  "shortlog_line False (''5'' @ [tab] @ ''Alice'' @ [tab] @ ''Smith'') []
     = Inr [[(''name'', Str ''Alice Smith''), (''count'', Num 5)]]
   \<and> ''Alice Smith'' \<noteq> ''Alice'' @ [tab] @ ''Smith''
   \<and> tab \<in> set (''5'' @ [tab])
   \<and> shortlog_line False (''5'' @ [tab]) [] = Inr []
   \<and> shortlog_line True (''5'' @ [tab] @ ''Alice <a@example.com'') []
     = Inr [[(''name'', Str ''Alice''), (''email'', Str ''a@example.co''), (''count'', Num 5)]]"
  by (simp add: shortlog_line_def str_strip_def isspace_def py_int_def int_space_def
      ascii_digit_def digits_value_def)

lemma has_flag_total:
  "has_flag args c = Inr False \<Longrightarrow> \<exists>b. has_flag args c' = Inr b"
  by (induction args) (auto simp: getitem_def split: if_splits)

lemma json_dumps_empty: "json_dumps [] = ''[]''"
  by (simp add: json_dumps_def)

text \<open>Whenever no call of \<^verbatim>\<open>has_flag\<close> raises and the command ends with status zero,
  the run ends at line 86: the output is a \<^verbatim>\<open>bytes\<close> object and splitting it on a string
  raises \<^verbatim>\<open>TypeError\<close>. The loop over the lines and the \<^verbatim>\<open>print\<close> are not reached.\<close>

lemma shortlog_split_raises:
  assumes "has_flag args CHR ''s'' = Inr s" and "has_flag args CHR ''n'' = Inr n"
    and "has_flag args CHR ''e'' = Inr e" and "fst (run (''git'' # args)) = 0"
  shows "git_shortlog run args json_flags = ([Exec (''git'' # args)], Raised TypeError)"
  using assms
  by (cases "run (''git'' # args)")
     (simp add: git_shortlog_def check_output_def split_newline_def)

text \<open>
  Claim C7, at an input where the code fails it. The command prints the line of the
  claim's example and ends with status zero. With the summary flag, with or without the
  email flag, the run ends at line 86 in \<^verbatim>\<open>TypeError\<close>: no line is parsed, no entry is
  built and nothing is printed.
\<close>

theorem shortlog_lines_never_parsed:
  "git_shortlog (answers (''  5'' @ [tab] @ ''Alice <a@example.com>'' @ [newline]))
     [''shortlog'', ''-s'', ''-e''] []
     = ([Exec [''git'', ''shortlog'', ''-s'', ''-e'']], Raised TypeError)
   \<and> git_shortlog (answers (''  5'' @ [tab] @ ''Alice <a@example.com>'' @ [newline]))
       [''shortlog'', ''-s''] []
     = ([Exec [''git'', ''shortlog'', ''-s'']], Raised TypeError)"
proof -
  have "git_shortlog (answers (''  5'' @ [tab] @ ''Alice <a@example.com>'' @ [newline]))
     [''shortlog'', ''-s'', ''-e''] []
     = ([Exec [''git'', ''shortlog'', ''-s'', ''-e'']], Raised TypeError)"
    by (rule shortlog_split_raises [where s = True and n = False and e = True])
       (simp_all add: getitem_def answers_def)
  moreover
  have "git_shortlog (answers (''  5'' @ [tab] @ ''Alice <a@example.com>'' @ [newline]))
       [''shortlog'', ''-s''] []
     = ([Exec [''git'', ''shortlog'', ''-s'']], Raised TypeError)"
    by (rule shortlog_split_raises [where s = True and n = False and e = False])
       (simp_all add: getitem_def answers_def)
  ultimately show ?thesis by simp
qed

text \<open>
  Claim C9, at inputs where the code fails it. The argument list \<^verbatim>\<open>shortlog\<close> has no
  single-dash flag with an \<^verbatim>\<open>s\<close>; the command is run and the run ends at line 86 in
  \<^verbatim>\<open>TypeError\<close>, with nothing printed. The argument list \<^verbatim>\<open>shortlog -\<close> has none either;
  \<^verbatim>\<open>has_flag\<close> reads \<^verbatim>\<open>arg[1]\<close> of the one-character argument and raises
  \<^verbatim>\<open>IndexError\<close> before any command is run.
\<close>

theorem shortlog_prints_no_empty_array:
  "has_flag [''shortlog''] CHR ''s'' = Inr False
   \<and> git_shortlog (answers (''  5'' @ [tab] @ ''Alice <a@example.com>'' @ [newline]))
       [''shortlog''] []
     = ([Exec [''git'', ''shortlog'']], Raised TypeError)
   \<and> has_flag [''shortlog'', ''-''] CHR ''s'' = Inl IndexError
   \<and> git_shortlog (answers (''  5'' @ [tab] @ ''Alice <a@example.com>'' @ [newline]))
       [''shortlog'', ''-''] []
     = ([], Raised IndexError)"
proof -
  have f: "has_flag [''shortlog''] CHR ''s'' = Inr False"
    by (simp add: getitem_def)
  have "git_shortlog (answers (''  5'' @ [tab] @ ''Alice <a@example.com>'' @ [newline]))
       [''shortlog''] []
     = ([Exec [''git'', ''shortlog'']], Raised TypeError)"
    by (rule shortlog_split_raises [where s = False and n = False and e = False])
       (simp_all add: getitem_def answers_def)
  moreover have d: "has_flag [''shortlog'', ''-''] CHR ''s'' = Inl IndexError"
    by (simp add: getitem_def)
  moreover from d
  have "git_shortlog (answers (''  5'' @ [tab] @ ''Alice <a@example.com>'' @ [newline]))
       [''shortlog'', ''-''] []
     = ([], Raised IndexError)"
    by (simp add: git_shortlog_def)
  ultimately show ?thesis using f by simp
qed

text \<open>Were the output a string, the run would go on to the loop and print.\<close>

lemma split_newline_text: "split_newline (Text s) = Inr (str_split s newline)"
  by (simp add: split_newline_def)

lemma json_dumps_example:
  "json_dumps [[(''name'', Str ''Al''), (''count'', Num 5)]]
   = ''[{'' @ [CHR 0x22] @ ''name'' @ [CHR 0x22] @ '': '' @ [CHR 0x22] @ ''Al'' @ [CHR 0x22]
     @ '', '' @ [CHR 0x22] @ ''count'' @ [CHR 0x22] @ '': 5}]''"
  by code_simp

end
